theory Spec2Isabelle
  imports Complex_Main "HOL-Library.AList" "HOL-Library.Word"
begin

section \<open>Data model of \<open>server.js\<close>\<close>

text \<open>
  The server keeps one \<open>game\<close> object, one module-level \<open>progressInterval\<close> and the
  timers it has armed with \<open>setTimeout\<close>/\<open>setInterval\<close>. Every socket handler and every
  timer callback runs to completion on the single event loop, so each of them is a function
  from the state before to the state after. What a handler emits through socket.io is
  appended to \<open>outbox\<close>.
\<close>

datatype phase = Lobby | Countdown | Playing | RoundEnd | GameOver

datatype light = Red | Green

text \<open>A JavaScript string is a sequence of UTF-16 code units; socket ids are only compared.\<close>

type_synonym jsstring = "16 word list"

type_synonym socket_id = string

record player =
  player_id :: socket_id
  name :: jsstring
  progress :: real
  alive :: bool
  holding :: bool
  eliminated :: bool
  finishedAt :: "nat option"

text \<open>The object literal built by \<open>getPlayersArray\<close>.\<close>

record player_view =
  view_id :: socket_id
  view_name :: jsstring
  view_progress :: real
  view_alive :: bool
  view_holding :: bool
  view_finishedAt :: "nat option"

datatype target = Room_tv | To socket_id

datatype message =
    MsgGameState phase light "player_view list" nat
  | MsgPlayerState phase light real bool bool
  | MsgEliminations "(socket_id \<times> jsstring) list"
  | MsgEliminated
  | MsgGameOver "(socket_id \<times> jsstring) option" "player_view list"
  | MsgCountdown int
  | MsgJoinError string
  | MsgJoined socket_id jsstring
  | MsgPlayerJoined socket_id jsstring
  | MsgKicked

text \<open>
  The callbacks handed to \<open>setTimeout\<close> and \<open>setInterval\<close>. The countdown closure owns the
  local variable \<open>count\<close>, which lives as long as its interval does.
\<close>

datatype callback =
    CbSwitchToRed
  | CbSwitchToGreen
  | CbEliminateHolders
  | CbProgressTick
  | CbCountdown int

record timer =
  handle :: nat
  callback :: callback
  delay :: int
  repeats :: bool

text \<open>
  \<open>players\<close> is the JavaScript \<open>Map\<close> from socket id to player object, in insertion order:
  \<open>Map.set\<close> on a present key replaces the value where it stands and on a new key appends
  (\<open>AList.update\<close>), \<open>Map.delete\<close> removes the entry (\<open>AList.delete\<close>), and a field
  assignment through \<open>Map.get\<close> changes the stored object (\<open>AList.map_entry\<close>).
  \<open>lightTimer\<close>, \<open>graceTimer\<close>, \<open>countdownTimer\<close> and \<open>progressInterval\<close> hold timer
  handles (\<open>None\<close> is \<open>null\<close>); \<open>timers\<close> are the timers that are still armed.
\<close>

record game =
  phase :: phase
  light :: light
  players :: "(socket_id \<times> player) list"
  round_num :: nat
  lightTimer :: "nat option"
  graceTimer :: "nat option"
  countdownTimer :: "nat option"
  greenDuration :: "int \<times> int"
  redDuration :: "int \<times> int"
  gracePeriodMs :: int
  progressToWin :: real
  progressRate :: real
  eliminationPending :: bool
  progressInterval :: "nat option"
  timers :: "timer list"
  nextHandle :: nat
  outbox :: "(target \<times> message) list"

definition initial_game :: game where
  "initial_game =
     \<lparr> phase = Lobby, light = Red, players = [], round_num = 0,
       lightTimer = None, graceTimer = None, countdownTimer = None,
       greenDuration = (1500, 5000), redDuration = (2000, 4000),
       gracePeriodMs = 350, progressToWin = 100, progressRate = 5 / 2,
       eliminationPending = False, progressInterval = None,
       timers = [], nextHandle = 1, outbox = [] \<rparr>"

section \<open>Helpers\<close>

definition createPlayer :: "socket_id \<Rightarrow> jsstring \<Rightarrow> player" where
  "createPlayer i n =
     \<lparr> player_id = i, name = take 15 n, progress = 0, alive = True,
       holding = False, eliminated = False, finishedAt = None \<rparr>"

text \<open>\<open>!player.finishedAt\<close> and \<open>filter((p) => p.finishedAt)\<close> test truthiness: \<open>null\<close> and
  the number 0 are both falsy.\<close>

definition truthy :: "nat option \<Rightarrow> bool" where
  "truthy t = (case t of None \<Rightarrow> False | Some n \<Rightarrow> n \<noteq> 0)"

definition view_of :: "player \<Rightarrow> player_view" where
  "view_of p =
     \<lparr> view_id = player_id p, view_name = name p, view_progress = progress p,
       view_alive = alive p, view_holding = holding p, view_finishedAt = finishedAt p \<rparr>"

definition getPlayersArray :: "game \<Rightarrow> player_view list" where
  "getPlayersArray g = map (\<lambda>kp. view_of (snd kp)) (players g)"

definition getAlivePlayers :: "game \<Rightarrow> player list" where
  "getAlivePlayers g = filter alive (map snd (players g))"

definition emit :: "target \<Rightarrow> message \<Rightarrow> game \<Rightarrow> game" where
  "emit t m g = g\<lparr>outbox := outbox g @ [(t, m)]\<rparr>"

definition broadcastGameState :: "game \<Rightarrow> game" where
  "broadcastGameState g =
     emit Room_tv (MsgGameState (phase g) (light g) (getPlayersArray g) (round_num g)) g"

definition broadcastToPhones :: "game \<Rightarrow> game" where
  "broadcastToPhones g =
     g\<lparr>outbox := outbox g @
          map (\<lambda>kp. (To (player_id (snd kp)),
                      MsgPlayerState (phase g) (light g) (progress (snd kp))
                        (alive (snd kp)) (holding (snd kp))))
              (players g)\<rparr>"

definition broadcastAll :: "game \<Rightarrow> game" where
  "broadcastAll g = broadcastToPhones (broadcastGameState g)"

subsection \<open>Timers\<close>

text \<open>\<open>setTimeout\<close> and \<open>setInterval\<close> arm a timer and return its fresh handle.\<close>

definition setTimeout :: "callback \<Rightarrow> int \<Rightarrow> game \<Rightarrow> nat \<times> game" where
  "setTimeout cb d g =
     (nextHandle g,
      g\<lparr>timers := timers g @ [\<lparr>handle = nextHandle g, callback = cb, delay = d, repeats = False\<rparr>],
        nextHandle := Suc (nextHandle g)\<rparr>)"

definition setInterval :: "callback \<Rightarrow> int \<Rightarrow> game \<Rightarrow> nat \<times> game" where
  "setInterval cb d g =
     (nextHandle g,
      g\<lparr>timers := timers g @ [\<lparr>handle = nextHandle g, callback = cb, delay = d, repeats = True\<rparr>],
        nextHandle := Suc (nextHandle g)\<rparr>)"

text \<open>\<open>clearTimeout\<close> and \<open>clearInterval\<close> disarm the timer of a handle; \<open>null\<close> and a handle
  that has fired already are ignored.\<close>

definition clearTimer :: "nat option \<Rightarrow> game \<Rightarrow> game" where
  "clearTimer h g =
     (case h of None \<Rightarrow> g
      | Some n \<Rightarrow> g\<lparr>timers := filter (\<lambda>t. handle t \<noteq> n) (timers g)\<rparr>)"

definition startProgressTracking :: "game \<Rightarrow> game" where
  "startProgressTracking g =
     (let g1 = (if progressInterval g \<noteq> None then clearTimer (progressInterval g) g else g);
          (h, g2) = setInterval CbProgressTick 100 g1
      in g2\<lparr>progressInterval := Some h\<rparr>)"

definition stopProgressTracking :: "game \<Rightarrow> game" where
  "stopProgressTracking g =
     (if progressInterval g \<noteq> None
      then (clearTimer (progressInterval g) g)\<lparr>progressInterval := None\<rparr>
      else g)"

text \<open>
  \<open>Math.floor(Math.random() * (max - min + 1)) + min\<close>. The product is a floating-point
  multiplication of a random draw, so it is taken as given: \<open>r\<close> is the double that
  \<open>Math.random() * (max - min + 1)\<close> evaluates to. Flooring it and adding \<open>min\<close> are
  exact.
\<close>

definition randomBetween :: "real \<Rightarrow> int \<times> int \<Rightarrow> int" where
  "randomBetween r mm = \<lfloor>r\<rfloor> + fst mm"

section \<open>The match\<close>

definition endGame :: "player option \<Rightarrow> game \<Rightarrow> game" where
  "endGame winner g =
     (let g1 = g\<lparr>phase := GameOver\<rparr>;
          g2 = clearTimer (lightTimer g1) g1;
          g3 = clearTimer (graceTimer g2) g2;
          g4 = stopProgressTracking g3;
          g5 = g4\<lparr>light := Red\<rparr>;
          g6 = emit Room_tv
                 (MsgGameOver (map_option (\<lambda>w. (player_id w, name w)) winner)
                    (getPlayersArray g5)) g5
      in broadcastToPhones g6)"

text \<open>\<open>Array.prototype.sort\<close> is stable, and so is \<open>sort_key\<close>; the comparator
  \<open>a.finishedAt - b.finishedAt\<close> orders by the timestamp.\<close>

definition stamp :: "player \<Rightarrow> nat" where
  "stamp p = (case finishedAt p of None \<Rightarrow> 0 | Some t \<Rightarrow> t)"

definition finishers :: "game \<Rightarrow> player list" where
  "finishers g = filter (\<lambda>p. truthy (finishedAt p)) (map snd (players g))"

definition checkForWinner :: "game \<Rightarrow> game" where
  "checkForWinner g =
     (if length (finishers g) > 0
      then endGame (Some (hd (sort_key stamp (finishers g)))) g
      else g)"

subsection \<open>Progress accumulation\<close>

text \<open>The body of the \<open>forEach\<close> in the interval callback, for one player; \<open>now\<close> is what
  \<open>Date.now()\<close> returns if it is called. The result says whether the player finished.\<close>

definition tickPlayer :: "real \<Rightarrow> real \<Rightarrow> nat \<Rightarrow> player \<Rightarrow> player \<times> bool" where
  "tickPlayer toWin rate now p =
     (if alive p \<and> holding p \<and> \<not> truthy (finishedAt p) then
        (let p1 = p\<lparr>progress := min toWin (progress p + rate)\<rparr>
         in if progress p1 \<ge> toWin then (p1\<lparr>finishedAt := Some now\<rparr>, True) else (p1, False))
      else (p, False))"

text \<open>The \<open>forEach\<close> itself: \<open>clock k\<close> is the result of the \<open>k\<close>-th call of \<open>Date.now()\<close> in
  this tick, and the flag is \<open>someoneFinished\<close>.\<close>

fun tickPlayers ::
  "real \<Rightarrow> real \<Rightarrow> (nat \<Rightarrow> nat) \<Rightarrow> nat \<Rightarrow> (socket_id \<times> player) list
     \<Rightarrow> (socket_id \<times> player) list \<times> bool" where
  "tickPlayers toWin rate clock k [] = ([], False)"
| "tickPlayers toWin rate clock k ((i, p) # ps) =
     (let (p', fin) = tickPlayer toWin rate (clock k) p;
          (ps', someone) = tickPlayers toWin rate clock (if fin then Suc k else k) ps
      in ((i, p') # ps', fin \<or> someone))"

definition progressTick :: "(nat \<Rightarrow> nat) \<Rightarrow> game \<Rightarrow> game" where
  "progressTick clock g =
     (if phase g \<noteq> Playing \<or> light g \<noteq> Green then g
      else
        (let (ps, someoneFinished) =
               tickPlayers (progressToWin g) (progressRate g) clock 0 (players g);
             g1 = broadcastAll (g\<lparr>players := ps\<rparr>)
         in if someoneFinished then checkForWinner g1 else g1))"

subsection \<open>Light switching\<close>

definition switchToRed :: "game \<Rightarrow> game" where
  "switchToRed g =
     (if phase g \<noteq> Playing then g
      else
        (let g1 = broadcastAll (g\<lparr>light := Red, eliminationPending := True\<rparr>);
             (h, g2) = setTimeout CbEliminateHolders (gracePeriodMs g1) g1
         in g2\<lparr>graceTimer := Some h\<rparr>))"

definition switchToGreen :: "real \<Rightarrow> game \<Rightarrow> game" where
  "switchToGreen r g =
     (if phase g \<noteq> Playing then g
      else
        (let g1 = broadcastAll (g\<lparr>light := Green, eliminationPending := False\<rparr>);
             duration = randomBetween r (greenDuration g1);
             (h, g2) = setTimeout CbSwitchToRed duration g1
         in g2\<lparr>lightTimer := Some h\<rparr>))"

definition sweep :: "player \<Rightarrow> player" where
  "sweep p = (if alive p \<and> holding p then p\<lparr>alive := False, eliminated := True\<rparr> else p)"

definition eliminateHolders :: "real \<Rightarrow> game \<Rightarrow> game" where
  "eliminateHolders r g =
     (if phase g \<noteq> Playing \<or> light g \<noteq> Red then g
      else
        (let batch = map (\<lambda>p. (player_id p, name p))
                       (filter (\<lambda>p. alive p \<and> holding p) (map snd (players g)));
             g1 = g\<lparr>players := map (\<lambda>kp. (fst kp, sweep (snd kp))) (players g)\<rparr>;
             g2 = (if length batch > 0
                   then (emit Room_tv (MsgEliminations batch) g1)
                          \<lparr>outbox := outbox (emit Room_tv (MsgEliminations batch) g1) @
                                      map (\<lambda>e. (To (fst e), MsgEliminated)) batch\<rparr>
                   else g1);
             g3 = broadcastAll g2;
             survivors = getAlivePlayers g3
         in if length survivors = 0 then endGame None g3
            else if length survivors = 1 then endGame (Some (hd survivors)) g3
            else
              (let duration = randomBetween r (redDuration g3);
                   (h, g4) = setTimeout CbSwitchToGreen duration g3
               in g4\<lparr>lightTimer := Some h\<rparr>)))"

subsection \<open>Starting and resetting\<close>

definition pristine :: "player \<Rightarrow> player" where
  "pristine p =
     p\<lparr>progress := 0, alive := True, holding := False, eliminated := False, finishedAt := None\<rparr>"

definition emitCountdown :: "int \<Rightarrow> game \<Rightarrow> game" where
  "emitCountdown c g =
     (let g1 = emit Room_tv (MsgCountdown c) g
      in g1\<lparr>outbox := outbox g1 @
                map (\<lambda>kp. (To (player_id (snd kp)), MsgCountdown c)) (players g1)\<rparr>)"

definition startGame :: "game \<Rightarrow> game" where
  "startGame g =
     (if length (players g) < 1 then g
      else
        (let g1 = broadcastAll (g\<lparr>phase := Countdown, round_num := round_num g + 1, light := Red\<rparr>);
             g2 = emitCountdown 3 g1;
             (h, g3) = setInterval (CbCountdown 3) 1000 g2
         in g3\<lparr>countdownTimer := Some h\<rparr>))"

text \<open>The interval callback of \<open>startGame\<close>, for the interval with handle \<open>h\<close> whose closure
  holds \<open>count = c\<close>.\<close>

definition countdownTick :: "nat \<Rightarrow> int \<Rightarrow> real \<Rightarrow> game \<Rightarrow> game" where
  "countdownTick h c r g =
     (let g1 = g\<lparr>timers := map (\<lambda>t. if handle t = h then t\<lparr>callback := CbCountdown (c - 1)\<rparr> else t)
                              (timers g)\<rparr>
      in if c - 1 > 0 then emitCountdown (c - 1) g1
         else
           (let g2 = clearTimer (countdownTimer g1) g1;
                g3 = g2\<lparr>phase := Playing\<rparr>;
                g4 = startProgressTracking g3
            in switchToGreen r g4))"

definition resetGame :: "game \<Rightarrow> game" where
  "resetGame g =
     (let g1 = g\<lparr>phase := Lobby, light := Red, round_num := 0\<rparr>;
          g2 = clearTimer (lightTimer g1) g1;
          g3 = clearTimer (graceTimer g2) g2;
          g4 = clearTimer (countdownTimer g3) g3;
          g5 = stopProgressTracking g4;
          g6 = g5\<lparr>players := map (\<lambda>kp. (fst kp, pristine (snd kp))) (players g5)\<rparr>
      in broadcastAll g6)"

section \<open>Socket handlers\<close>

text \<open>Each handler takes the id of the socket that sent the event.\<close>

definition on_joinTV :: "socket_id \<Rightarrow> game \<Rightarrow> game" where
  "on_joinTV sid g = broadcastGameState g"

text \<open>\<open>String.prototype.trim\<close> strips white space and line terminators from both ends.\<close>

definition is_space :: "16 word \<Rightarrow> bool" where
  "is_space c \<longleftrightarrow>
     c \<in> {0x09, 0x0A, 0x0B, 0x0C, 0x0D, 0x20, 0xA0, 0x1680, 0x2028, 0x2029, 0x202F,
          0x205F, 0x3000, 0xFEFF} \<or> (0x2000 \<le> c \<and> c \<le> 0x200A)"

definition trim :: "jsstring \<Rightarrow> jsstring" where
  "trim s = rev (dropWhile is_space (rev (dropWhile is_space s)))"

definition on_joinGame :: "socket_id \<Rightarrow> jsstring \<Rightarrow> game \<Rightarrow> game" where
  "on_joinGame sid nm g =
     (if phase g \<noteq> Lobby
      then emit (To sid) (MsgJoinError ''Game already in progress. Wait for next round!'') g
      else if nm = [] \<or> length (trim nm) = 0
      then emit (To sid) (MsgJoinError ''Please enter a name!'') g
      else
        (let p = createPlayer sid (trim nm);
             g1 = g\<lparr>players := AList.update sid p (players g)\<rparr>;
             g2 = emit (To sid) (MsgJoined (player_id p) (name p)) g1;
             g3 = emit Room_tv (MsgPlayerJoined (player_id p) (name p)) g2
         in broadcastGameState g3))"

definition on_holdStart :: "socket_id \<Rightarrow> game \<Rightarrow> game" where
  "on_holdStart sid g =
     (case map_of (players g) sid of
        None \<Rightarrow> g
      | Some p \<Rightarrow>
          if \<not> alive p \<or> phase g \<noteq> Playing then g
          else
            (let g1 = g\<lparr>players := AList.map_entry sid (\<lambda>q. q\<lparr>holding := True\<rparr>) (players g)\<rparr>
             in if light g1 = Red \<and> \<not> eliminationPending g1 then
                  (let g2 = g1\<lparr>players :=
                               AList.map_entry sid (\<lambda>q. q\<lparr>alive := False, eliminated := True\<rparr>)
                                 (players g1)\<rparr>;
                       g3 = emit Room_tv (MsgEliminations [(player_id p, name p)]) g2;
                       g4 = emit (To sid) MsgEliminated g3
                   in broadcastAll g4)
                else g1))"

definition on_holdEnd :: "socket_id \<Rightarrow> game \<Rightarrow> game" where
  "on_holdEnd sid g =
     (case map_of (players g) sid of
        None \<Rightarrow> g
      | Some p \<Rightarrow> g\<lparr>players := AList.map_entry sid (\<lambda>q. q\<lparr>holding := False\<rparr>) (players g)\<rparr>)"

definition on_startGame :: "socket_id \<Rightarrow> game \<Rightarrow> game" where
  "on_startGame sid g =
     (if phase g = Lobby \<or> phase g = GameOver
      then startGame (g\<lparr>players := map (\<lambda>kp. (fst kp, pristine (snd kp))) (players g)\<rparr>)
      else g)"

definition on_resetGame :: "socket_id \<Rightarrow> game \<Rightarrow> game" where
  "on_resetGame sid g = resetGame g"

definition on_kickPlayer :: "socket_id \<Rightarrow> socket_id \<Rightarrow> game \<Rightarrow> game" where
  "on_kickPlayer sid playerId g =
     (let g1 = g\<lparr>players := AList.delete playerId (players g)\<rparr>;
          g2 = emit (To playerId) MsgKicked g1
      in broadcastGameState g2)"

definition on_disconnect :: "socket_id \<Rightarrow> game \<Rightarrow> game" where
  "on_disconnect sid g =
     (case map_of (players g) sid of
        None \<Rightarrow> g
      | Some p \<Rightarrow>
          (let g1 = (if phase g = Lobby
                     then g\<lparr>players := AList.delete sid (players g)\<rparr>
                     else g\<lparr>players :=
                            AList.map_entry sid (\<lambda>q. q\<lparr>alive := False, holding := False\<rparr>)
                              (players g)\<rparr>)
           in broadcastAll g1))"

section \<open>The event loop\<close>

text \<open>
  A timer that is armed may fire: a timeout is disarmed when it fires, an interval stays
  armed. \<open>r\<close> is the random product that \<open>randomBetween\<close> floors, if the callback
  calls it, and \<open>clock\<close> the readings of \<open>Date.now()\<close> during the callback.
\<close>

definition fire :: "nat \<Rightarrow> real \<Rightarrow> (nat \<Rightarrow> nat) \<Rightarrow> game \<Rightarrow> game" where
  "fire h r clock g =
     (case find (\<lambda>t. handle t = h) (timers g) of
        None \<Rightarrow> g
      | Some t \<Rightarrow>
          (let g1 = (if repeats t then g
                     else g\<lparr>timers := filter (\<lambda>t. handle t \<noteq> h) (timers g)\<rparr>)
           in case callback t of
                CbSwitchToRed \<Rightarrow> switchToRed g1
              | CbSwitchToGreen \<Rightarrow> switchToGreen r g1
              | CbEliminateHolders \<Rightarrow> eliminateHolders r g1
              | CbProgressTick \<Rightarrow> progressTick clock g1
              | CbCountdown c \<Rightarrow> countdownTick h c r g1))"

datatype event =
    JoinTV socket_id
  | JoinGame socket_id jsstring
  | HoldStart socket_id
  | HoldEnd socket_id
  | StartGame socket_id
  | ResetGame socket_id
  | KickPlayer socket_id socket_id
  | Disconnect socket_id
  | Fire nat real "nat \<Rightarrow> nat"

fun step :: "event \<Rightarrow> game \<Rightarrow> game" where
  "step (JoinTV sid) g = on_joinTV sid g"
| "step (JoinGame sid nm) g = on_joinGame sid nm g"
| "step (HoldStart sid) g = on_holdStart sid g"
| "step (HoldEnd sid) g = on_holdEnd sid g"
| "step (StartGame sid) g = on_startGame sid g"
| "step (ResetGame sid) g = on_resetGame sid g"
| "step (KickPlayer sid playerId) g = on_kickPlayer sid playerId g"
| "step (Disconnect sid) g = on_disconnect sid g"
| "step (Fire h r clock) g = fire h r clock g"

definition run :: "event list \<Rightarrow> game \<Rightarrow> game" where
  "run es g = foldl (\<lambda>s e. step e s) g es"

text \<open>\<open>Math.random()\<close> is not negative, so neither is its product with the width of a
  range, and \<open>Date.now()\<close>, milliseconds since 1970, is positive.\<close>

fun event_ok :: "event \<Rightarrow> bool" where
  "event_ok (Fire h r clock) \<longleftrightarrow> 0 \<le> r \<and> (\<forall>k. 0 < clock k)"
| "event_ok _ \<longleftrightarrow> True"

inductive reachable :: "game \<Rightarrow> bool" where
  reachable_init: "reachable initial_game"
| reachable_step: "reachable g \<Longrightarrow> event_ok e \<Longrightarrow> reachable (step e g)"

section \<open>Notions used in the statements\<close>

text \<open>The begin-hold and end-hold events.\<close>

fun is_hold :: "event \<Rightarrow> bool" where
  "is_hold (HoldStart _) = True"
| "is_hold (HoldEnd _) = True"
| "is_hold _ = False"

text \<open>Who is in the registry and who of them is alive, in registry order.\<close>

definition alive_flags :: "game \<Rightarrow> (socket_id \<times> bool) list" where
  "alive_flags g = map (\<lambda>kp. (fst kp, alive (snd kp))) (players g)"

text \<open>The players that are alive and not holding.\<close>

definition survivors :: "game \<Rightarrow> player list" where
  "survivors g = filter (\<lambda>p. alive p \<and> \<not> holding p) (map snd (players g))"

text \<open>What was emitted between a state and a later one, and the winners announced there
  (\<open>None\<close> is a match that ended with no winner).\<close>

definition emitted :: "game \<Rightarrow> game \<Rightarrow> (target \<times> message) list" where
  "emitted g g' = drop (length (outbox g)) (outbox g')"

fun announcement :: "target \<times> message \<Rightarrow> (socket_id \<times> jsstring) option option" where
  "announcement (t, MsgGameOver w v) = Some w"
| "announcement _ = None"

definition announced :: "game \<Rightarrow> game \<Rightarrow> (socket_id \<times> jsstring) option list" where
  "announced g g' = List.map_filter announcement (emitted g g')"

text \<open>Three players of a running match, for the examples: \<open>ann\<close> is named "A" and is
  not holding, \<open>bob\<close> is named "B" and is holding, \<open>cy\<close> is named "C" and is not
  holding.\<close>

definition ann :: player where
  "ann = createPlayer ''s1'' [0x41]"

definition bob :: player where
  "bob = (createPlayer ''s2'' [0x42])\<lparr>holding := True\<rparr>"

definition cy :: player where
  "cy = createPlayer ''s3'' [0x43]"

definition match_at :: "light \<Rightarrow> bool \<Rightarrow> game" where
  "match_at l pending =
     initial_game\<lparr>phase := Playing, light := l, eliminationPending := pending,
       round_num := 1, players := [(''s1'', ann), (''s2'', bob), (''s3'', cy)]\<rparr>"

text \<open>The grace window after \<open>cy\<close> has disconnected, with the sweep armed as timer 7.\<close>

definition last_two :: game where
  "last_two =
     step (Disconnect ''s3'')
       ((match_at Red True)\<lparr>timers :=
          [\<lparr>handle = 7, callback = CbEliminateHolders, delay = 350, repeats = False\<rparr>],
          graceTimer := Some 7, nextHandle := 8\<rparr>)"

text \<open>A lobby in which \<open>ann\<close> has joined.\<close>

definition lobby_with_ann :: game where
  "lobby_with_ann = initial_game\<lparr>players := [(''s1'', ann)]\<rparr>"




text \<open>The events that neither reset the players nor let one join: everything that can
  happen to the players of a match while it runs.\<close>

fun in_match :: "event \<Rightarrow> bool" where
  "in_match (JoinGame _ _) = False"
| "in_match (StartGame _) = False"
| "in_match (ResetGame _) = False"
| "in_match _ = True"

text \<open>The two constants of the progress engine, and the bounds on progress that every
  handler keeps.\<close>

definition config :: "game \<Rightarrow> real \<times> real" where
  "config g = (progressToWin g, progressRate g)"

definition bounded :: "(socket_id \<times> player) list \<Rightarrow> bool" where
  "bounded ps \<longleftrightarrow> (\<forall>kp \<in> set ps. 0 \<le> progress (snd kp) \<and> progress (snd kp) \<le> 100)"

definition progress_ok :: "game \<Rightarrow> bool" where
  "progress_ok g \<longleftrightarrow>
     progressToWin g = 100 \<and> progressRate g = 5 / 2 \<and>
     (\<forall>kp \<in> set (players g). 0 \<le> progress (snd kp) \<and> progress (snd kp) \<le> 100)"

text \<open>Every player of the second registry is in the first, with no more progress there.\<close>

definition reg_le :: "(socket_id \<times> player) list \<Rightarrow> (socket_id \<times> player) list \<Rightarrow> bool" where
  "reg_le ps ps' \<longleftrightarrow>
     (\<forall>k p'. map_of ps' k = Some p' \<longrightarrow> (\<exists>p. map_of ps k = Some p \<and> progress p \<le> progress p'))"

text \<open>
  The invariant of the match: a countdown interval is armed only in phase countdown, and it
  is then the one \<open>countdownTimer\<close> holds; while the phase is countdown or playing, no
  player has a finishedAt.
\<close>

definition is_countdown :: "callback \<Rightarrow> bool" where
  "is_countdown cb = (case cb of CbCountdown c \<Rightarrow> True | _ \<Rightarrow> False)"

definition cds :: "game \<Rightarrow> timer set" where
  "cds g = {t \<in> set (timers g). is_countdown (callback t)}"

definition countdown_ok :: "game \<Rightarrow> bool" where
  "countdown_ok g \<longleftrightarrow> (\<forall>t \<in> cds g. phase g = Countdown \<and> countdownTimer g = Some (handle t))"

definition unfinished :: "(socket_id \<times> player) list \<Rightarrow> bool" where
  "unfinished ps \<longleftrightarrow> (\<forall>kp \<in> set ps. finishedAt (snd kp) = None)"

definition match_inv :: "game \<Rightarrow> bool" where
  "match_inv g \<longleftrightarrow>
     countdown_ok g \<and> (phase g = Countdown \<or> phase g = Playing \<longrightarrow> unfinished (players g))"

text \<open>
  A match played from the start: two sockets join, the display starts the match, the
  countdown interval (handle 1) fires three times, which arms the progress interval
  (handle 2) and turns the light green. The clock reads 1000 throughout. In \<open>racing x\<close>
  states the first player holds with progress \<open>x\<close>; \<open>finish_line\<close> is reached when
  that player has held for forty ticks.
\<close>

definition clk :: "nat \<Rightarrow> nat" where
  "clk k = 1000"

definition green_start :: game where
  "green_start =
     run [JoinGame ''s1'' [0x41], JoinGame ''s2'' [0x42], StartGame ''tv'',
          Fire 1 0 clk, Fire 1 0 clk, Fire 1 0 clk] initial_game"

definition racing :: "real \<Rightarrow> game \<Rightarrow> bool" where
  "racing x g \<longleftrightarrow>
     phase g = Playing \<and> light g = Green \<and> progressToWin g = 100 \<and> progressRate g = 5 / 2 \<and>
     find (\<lambda>t. handle t = 2) (timers g) =
       Some \<lparr>handle = 2, callback = CbProgressTick, delay = 100, repeats = True\<rparr> \<and>
     players g = [(''s1'', (createPlayer ''s1'' [0x41])\<lparr>holding := True, progress := x\<rparr>),
                  (''s2'', createPlayer ''s2'' [0x42])]"

definition finish_line :: game where
  "finish_line =
     step (Fire 2 0 clk)
       (run (replicate 39 (Fire 2 0 clk)) (step (HoldStart ''s1'') green_start))"

text \<open>
  Whenever the light is red in a running match, an elimination is still pending. And the
  match \<open>green_start\<close> carried on: the light timer (handle 3) turns the light red, and the
  grace-period sweep (handle 4) finds nobody holding and arms the next green light.
\<close>

definition pending_ok :: "game \<Rightarrow> bool" where
  "pending_ok g \<longleftrightarrow> (phase g = Playing \<and> light g = Red \<longrightarrow> eliminationPending g)"

definition after_sweep :: game where
  "after_sweep = run [Fire 3 0 clk, Fire 4 0 clk] green_start"

section \<open>Basic facts\<close>

lemma map_of_map_snd:
  "map_of (map (\<lambda>kp. (fst kp, f (snd kp))) ps) k = map_option f (map_of ps k)"
  by (induction ps) auto

lemma map_entry_flags:
  "(\<And>q. alive (f q) = alive q) \<Longrightarrow>
   map (\<lambda>kp. (fst kp, alive (snd kp))) (AList.map_entry k f ps) =
   map (\<lambda>kp. (fst kp, alive (snd kp))) ps"
  by (induction ps) auto

subsection \<open>Fields that emitting and timer bookkeeping leave alone\<close>

lemma emit_fields [simp]:
  "phase (emit t m g) = phase g" "light (emit t m g) = light g"
  "players (emit t m g) = players g" "timers (emit t m g) = timers g"
  "eliminationPending (emit t m g) = eliminationPending g"
  "round_num (emit t m g) = round_num g"
  "progressToWin (emit t m g) = progressToWin g"
  "progressRate (emit t m g) = progressRate g"
  "countdownTimer (emit t m g) = countdownTimer g"
  "lightTimer (emit t m g) = lightTimer g"
  "graceTimer (emit t m g) = graceTimer g"
  "progressInterval (emit t m g) = progressInterval g"
  "nextHandle (emit t m g) = nextHandle g"
  "redDuration (emit t m g) = redDuration g"
  "outbox (emit t m g) = outbox g @ [(t, m)]"
  by (simp_all add: emit_def)

lemma broadcastGameState_fields [simp]:
  "phase (broadcastGameState g) = phase g" "light (broadcastGameState g) = light g"
  "players (broadcastGameState g) = players g" "timers (broadcastGameState g) = timers g"
  "eliminationPending (broadcastGameState g) = eliminationPending g"
  "round_num (broadcastGameState g) = round_num g"
  "progressToWin (broadcastGameState g) = progressToWin g"
  "progressRate (broadcastGameState g) = progressRate g"
  "countdownTimer (broadcastGameState g) = countdownTimer g"
  "lightTimer (broadcastGameState g) = lightTimer g"
  "graceTimer (broadcastGameState g) = graceTimer g"
  "progressInterval (broadcastGameState g) = progressInterval g"
  "nextHandle (broadcastGameState g) = nextHandle g"
  "redDuration (broadcastGameState g) = redDuration g"
  by (simp_all add: broadcastGameState_def)

lemma broadcastToPhones_fields [simp]:
  "phase (broadcastToPhones g) = phase g" "light (broadcastToPhones g) = light g"
  "players (broadcastToPhones g) = players g" "timers (broadcastToPhones g) = timers g"
  "eliminationPending (broadcastToPhones g) = eliminationPending g"
  "round_num (broadcastToPhones g) = round_num g"
  "progressToWin (broadcastToPhones g) = progressToWin g"
  "progressRate (broadcastToPhones g) = progressRate g"
  "countdownTimer (broadcastToPhones g) = countdownTimer g"
  "lightTimer (broadcastToPhones g) = lightTimer g"
  "graceTimer (broadcastToPhones g) = graceTimer g"
  "progressInterval (broadcastToPhones g) = progressInterval g"
  "nextHandle (broadcastToPhones g) = nextHandle g"
  "redDuration (broadcastToPhones g) = redDuration g"
  by (simp_all add: broadcastToPhones_def)

lemma broadcastAll_fields [simp]:
  "phase (broadcastAll g) = phase g" "light (broadcastAll g) = light g"
  "players (broadcastAll g) = players g" "timers (broadcastAll g) = timers g"
  "eliminationPending (broadcastAll g) = eliminationPending g"
  "round_num (broadcastAll g) = round_num g"
  "progressToWin (broadcastAll g) = progressToWin g"
  "progressRate (broadcastAll g) = progressRate g"
  "countdownTimer (broadcastAll g) = countdownTimer g"
  "lightTimer (broadcastAll g) = lightTimer g"
  "graceTimer (broadcastAll g) = graceTimer g"
  "progressInterval (broadcastAll g) = progressInterval g"
  "nextHandle (broadcastAll g) = nextHandle g"
  "redDuration (broadcastAll g) = redDuration g"
  by (simp_all add: broadcastAll_def)

lemma clearTimer_fields [simp]:
  "phase (clearTimer h g) = phase g" "light (clearTimer h g) = light g"
  "players (clearTimer h g) = players g"
  "eliminationPending (clearTimer h g) = eliminationPending g"
  "round_num (clearTimer h g) = round_num g"
  "progressToWin (clearTimer h g) = progressToWin g"
  "progressRate (clearTimer h g) = progressRate g"
  "countdownTimer (clearTimer h g) = countdownTimer g"
  "lightTimer (clearTimer h g) = lightTimer g"
  "graceTimer (clearTimer h g) = graceTimer g"
  "progressInterval (clearTimer h g) = progressInterval g"
  "nextHandle (clearTimer h g) = nextHandle g"
  "outbox (clearTimer h g) = outbox g"
  by (simp_all add: clearTimer_def split: option.splits)

lemma stopProgressTracking_fields [simp]:
  "phase (stopProgressTracking g) = phase g" "light (stopProgressTracking g) = light g"
  "players (stopProgressTracking g) = players g"
  "eliminationPending (stopProgressTracking g) = eliminationPending g"
  "round_num (stopProgressTracking g) = round_num g"
  "progressToWin (stopProgressTracking g) = progressToWin g"
  "progressRate (stopProgressTracking g) = progressRate g"
  "countdownTimer (stopProgressTracking g) = countdownTimer g"
  "lightTimer (stopProgressTracking g) = lightTimer g"
  "graceTimer (stopProgressTracking g) = graceTimer g"
  "nextHandle (stopProgressTracking g) = nextHandle g"
  "outbox (stopProgressTracking g) = outbox g"
  by (simp_all add: stopProgressTracking_def)

lemma endGame_fields [simp]:
  "phase (endGame w g) = GameOver" "light (endGame w g) = Red"
  "players (endGame w g) = players g"
  "eliminationPending (endGame w g) = eliminationPending g"
  "round_num (endGame w g) = round_num g"
  "progressToWin (endGame w g) = progressToWin g"
  "progressRate (endGame w g) = progressRate g"
  "countdownTimer (endGame w g) = countdownTimer g"
  by (simp_all add: endGame_def Let_def)

lemma eliminateHolders_players:
  "players (eliminateHolders r g) =
     (if phase g = Playing \<and> light g = Red
      then map (\<lambda>kp. (fst kp, sweep (snd kp))) (players g) else players g)"
  by (simp add: eliminateHolders_def Let_def setTimeout_def split: prod.splits)

lemma sweep_alive: "alive (sweep p) \<longleftrightarrow> alive p \<and> \<not> holding p"
  by (auto simp: sweep_def)

lemma hold_in_window:
  assumes "phase g = Playing" and "light g = Red" and "eliminationPending g" and "is_hold e"
  shows "phase (step e g) = Playing \<and> light (step e g) = Red \<and> eliminationPending (step e g)
         \<and> alive_flags (step e g) = alive_flags g"
  using assms
  by (cases e)
     (auto simp: on_holdStart_def on_holdEnd_def alive_flags_def Let_def map_entry_flags
           split: option.splits)

lemma holds_in_window:
  assumes "\<forall>e \<in> set es. is_hold e"
    and "phase g = Playing" and "light g = Red" and "eliminationPending g"
  shows "phase (run es g) = Playing \<and> light (run es g) = Red \<and> eliminationPending (run es g)
         \<and> alive_flags (run es g) = alive_flags g"
  using assms
proof (induction es arbitrary: g)
  case Nil
  then show ?case by (simp add: run_def)
next
  case (Cons e es)
  from Cons.prems have w: "phase (step e g) = Playing \<and> light (step e g) = Red \<and>
      eliminationPending (step e g) \<and> alive_flags (step e g) = alive_flags g"
    using hold_in_window [of g e] by simp
  from Cons.IH [of "step e g"] Cons.prems w show ?case
    by (simp add: run_def)
qed

subsection \<open>Phase changes\<close>

lemma map_fst_map_snd [simp]:
  "map fst (map (\<lambda>kp. (fst kp, f (snd kp))) ps) = map fst ps"
  by (induction ps) auto

lemma resetGame_players:
  "players (resetGame g) = map (\<lambda>kp. (fst kp, pristine (snd kp))) (players g)"
  by (simp add: resetGame_def Let_def)

lemma pristine_fields:
  "player_id (pristine p) = player_id p" "name (pristine p) = name p"
  "progress (pristine p) = 0" "alive (pristine p)" "\<not> holding (pristine p)"
  "finishedAt (pristine p) = None"
  by (simp_all add: pristine_def)

lemma phase_setTimeout [simp]: "phase (snd (setTimeout cb d g)) = phase g"
  by (simp add: setTimeout_def)

lemma phase_switchToRed: "phase (switchToRed g) = phase g"
  by (simp add: switchToRed_def Let_def setTimeout_def split: prod.splits)

lemma phase_switchToGreen: "phase (switchToGreen r g) = phase g"
  by (simp add: switchToGreen_def Let_def setTimeout_def split: prod.splits)

lemma phase_startProgressTracking [simp]: "phase (startProgressTracking g) = phase g"
  by (simp add: startProgressTracking_def Let_def setInterval_def split: prod.splits)

lemma phase_emitCountdown [simp]: "phase (emitCountdown c g) = phase g"
  by (simp add: emitCountdown_def Let_def)

lemma phase_countdownTick: "phase (countdownTick h c r g) \<noteq> GameOver \<or> phase g = GameOver"
  by (simp add: countdownTick_def Let_def phase_switchToGreen)

lemma phase_on_holdStart [simp]: "phase (on_holdStart sid g) = phase g"
  by (simp add: on_holdStart_def Let_def split: option.splits)

lemma phase_on_holdEnd [simp]: "phase (on_holdEnd sid g) = phase g"
  by (simp add: on_holdEnd_def split: option.splits)

lemma phase_on_kickPlayer [simp]: "phase (on_kickPlayer sid k g) = phase g"
  by (simp add: on_kickPlayer_def Let_def)

lemma phase_on_disconnect [simp]: "phase (on_disconnect sid g) = phase g"
  by (simp add: on_disconnect_def Let_def split: option.splits)

lemma phase_on_joinGame [simp]: "phase (on_joinGame sid nm g) = phase g"
  by (simp add: on_joinGame_def Let_def)

lemma only_timers_end_match:
  assumes "phase g = Playing" and "phase (step e g) = GameOver"
  shows "\<exists>h r clock t. e = Fire h r clock \<and> find (\<lambda>t. handle t = h) (timers g) = Some t \<and>
           (callback t = CbEliminateHolders \<or> callback t = CbProgressTick)"
proof (cases e)
  case (Fire h r clock)
  show ?thesis
  proof (cases "find (\<lambda>t. handle t = h) (timers g)")
    case None
    with assms Fire show ?thesis by (simp add: fire_def)
  next
    case (Some t)
    let ?g1 = "if repeats t then g else g\<lparr>timers := filter (\<lambda>t. handle t \<noteq> h) (timers g)\<rparr>"
    have p1: "phase ?g1 = Playing" using assms(1) by simp
    show ?thesis
    proof (cases "callback t")
      case CbSwitchToRed
      with assms Fire Some p1 show ?thesis
        by (simp add: fire_def Let_def phase_switchToRed)
    next
      case CbSwitchToGreen
      with assms Fire Some p1 show ?thesis
        by (simp add: fire_def Let_def phase_switchToGreen)
    next
      case (CbCountdown c)
      with assms Fire Some p1 phase_countdownTick [of h c r ?g1] show ?thesis
        by (simp add: fire_def Let_def)
    qed (use Fire Some in simp_all)
  qed
qed (use assms in \<open>simp_all add: on_joinTV_def on_startGame_def on_resetGame_def resetGame_def Let_def\<close>)

subsection \<open>What is announced\<close>

lemma emitted_append: "outbox g' = outbox g @ xs \<Longrightarrow> emitted g g' = xs"
  by (simp add: emitted_def)

lemma map_filter_append: "List.map_filter f (xs @ ys) = List.map_filter f xs @ List.map_filter f ys"
  by (simp add: List.map_filter_def)

lemma no_announcement_phones [simp]:
  "List.map_filter announcement (map (\<lambda>kp. (To (i kp), MsgPlayerState a b (c kp) (d kp) (e kp))) ps) = []"
  by (induction ps) simp_all

lemma outbox_broadcastGameState:
  "outbox (broadcastGameState g) =
     outbox g @ [(Room_tv, MsgGameState (phase g) (light g) (getPlayersArray g) (round_num g))]"
  by (simp add: broadcastGameState_def)

lemma outbox_broadcastToPhones:
  "outbox (broadcastToPhones g) =
     outbox g @ map (\<lambda>kp. (To (player_id (snd kp)),
                      MsgPlayerState (phase g) (light g) (progress (snd kp))
                        (alive (snd kp)) (holding (snd kp)))) (players g)"
  by (simp add: broadcastToPhones_def)

lemma announced_broadcastAll:
  "outbox g1 = outbox g @ xs \<Longrightarrow>
   announced g (broadcastAll g1) = List.map_filter announcement xs"
  by (simp add: announced_def emitted_def broadcastAll_def outbox_broadcastToPhones
        outbox_broadcastGameState map_filter_append)

lemma announced_on_kickPlayer: "announced g (on_kickPlayer sid k g) = []"
  by (simp add: announced_def emitted_def on_kickPlayer_def Let_def outbox_broadcastGameState
       )

lemma announced_on_disconnect: "announced g (on_disconnect sid g) = []"
proof (cases "map_of (players g) sid")
  case None
  then show ?thesis by (simp add: on_disconnect_def announced_def emitted_def)
next
  case (Some p)
  have "announced g (broadcastAll g1) = []" if "outbox g1 = outbox g @ []" for g1
    using announced_broadcastAll [OF that] by simp
  with Some show ?thesis by (simp add: on_disconnect_def Let_def)
qed

lemma map_of_delete_self: "map_of (AList.delete k ps) k = None"
  by (simp add: AList.delete_conv')

subsection \<open>Registry updates\<close>

lemma map_entry_absent: "map_of ps k = None \<Longrightarrow> AList.map_entry k f ps = ps"
  by (induction ps) (auto split: if_splits)

lemma map_fst_map_entry [simp]: "map fst (AList.map_entry k f ps) = map fst ps"
  by (induction ps) auto

lemma map_fst_update_present:
  "map_of ps k = Some v \<Longrightarrow> map fst (AList.update k w ps) = map fst ps"
  by (induction ps) (auto split: if_splits)

lemma sweep_holding: "holding (sweep p) = holding p"
  by (simp add: sweep_def)

lemma on_holdStart_dead:
  "map_of (players g) sid = Some p \<Longrightarrow> \<not> alive p \<Longrightarrow> on_holdStart sid g = g"
  by (simp add: on_holdStart_def)

lemma on_holdEnd_players:
  "players (on_holdEnd sid g) = AList.map_entry sid (\<lambda>q. q\<lparr>holding := False\<rparr>) (players g)"
  by (simp add: on_holdEnd_def map_entry_absent split: option.splits)

lemma on_holdEnd_eq:
  "on_holdEnd sid g = g\<lparr>players := AList.map_entry sid (\<lambda>q. q\<lparr>holding := False\<rparr>) (players g)\<rparr>"
  by (simp add: on_holdEnd_def map_entry_absent split: option.splits)

lemma trim_Nil [simp]: "trim [] = []"
  by (simp add: trim_def)

lemma map_of_update_other: "k \<noteq> sid \<Longrightarrow> map_of (AList.update sid v ps) k = map_of ps k"
  by (simp add: AList.update_conv')

lemma map_of_update_self: "map_of (AList.update sid v ps) sid = Some v"
  by (simp add: AList.update_conv')

subsection \<open>The sweep\<close>

lemma filter_alive_sweep:
  "filter alive (map snd (map (\<lambda>kp. (fst kp, sweep (snd kp))) ps)) =
   filter (\<lambda>p. alive p \<and> \<not> holding p) (map snd ps)"
  by (induction ps) (auto simp: sweep_def)

lemma no_announcement_eliminated:
  "List.map_filter announcement (map (\<lambda>e. (To (fst e), MsgEliminated)) xs) = []"
  by (induction xs) simp_all

lemma sweep_fields:
  "player_id (sweep p) = player_id p" "name (sweep p) = name p"
  "progress (sweep p) = progress p" "finishedAt (sweep p) = finishedAt p"
  by (simp_all add: sweep_def)

lemma announced_endGame:
  assumes "outbox g1 = outbox g @ xs"
  shows "announced g (endGame w g1) =
           List.map_filter announcement xs @ [map_option (\<lambda>w. (player_id w, name w)) w]"
  using assms
  by (simp add: announced_def emitted_def endGame_def Let_def outbox_broadcastToPhones
        map_filter_append)

lemma announced_same:
  assumes "outbox g1 = outbox g @ xs"
  shows "announced g g1 = List.map_filter announcement xs"
  using assms by (simp add: announced_def emitted_def)

lemma outbox_broadcastAll:
  "\<exists>ys. outbox (broadcastAll g) = outbox g @ ys \<and> List.map_filter announcement ys = []"
  by (simp add: broadcastAll_def outbox_broadcastToPhones outbox_broadcastGameState
        map_filter_append)

lemma sweep_survivors:
  assumes "phase g = Playing" and "light g = Red"
  shows "(survivors g = [] \<longrightarrow>
           phase (eliminateHolders r g) = GameOver \<and> announced g (eliminateHolders r g) = [None]) \<and>
         (survivors g = [w] \<longrightarrow>
           phase (eliminateHolders r g) = GameOver \<and>
           announced g (eliminateHolders r g) = [Some (player_id w, name w)]) \<and>
         (length (survivors g) \<ge> 2 \<longrightarrow>
           phase (eliminateHolders r g) = Playing \<and> light (eliminateHolders r g) = Red \<and>
           announced g (eliminateHolders r g) = [] \<and>
           timers (eliminateHolders r g) =
             timers g @ [\<lparr>handle = nextHandle g, callback = CbSwitchToGreen,
                          delay = randomBetween r (redDuration g), repeats = False\<rparr>] \<and>
           lightTimer (eliminateHolders r g) = Some (nextHandle g))"
proof -
  define batch where "batch = map (\<lambda>p. (player_id p, name p))
                       (filter (\<lambda>p. alive p \<and> holding p) (map snd (players g)))"
  define g1 where "g1 = g\<lparr>players := map (\<lambda>kp. (fst kp, sweep (snd kp))) (players g)\<rparr>"
  define g2 where "g2 = (if length batch > 0
                   then (emit Room_tv (MsgEliminations batch) g1)
                          \<lparr>outbox := outbox (emit Room_tv (MsgEliminations batch) g1) @
                                      map (\<lambda>e. (To (fst e), MsgEliminated)) batch\<rparr>
                   else g1)"
  define g3 where "g3 = broadcastAll g2"
  have unfold: "eliminateHolders r g =
      (if length (getAlivePlayers g3) = 0 then endGame None g3
       else if length (getAlivePlayers g3) = 1 then endGame (Some (hd (getAlivePlayers g3))) g3
       else (snd (setTimeout CbSwitchToGreen (randomBetween r (redDuration g3)) g3))
              \<lparr>lightTimer := Some (nextHandle g3)\<rparr>)"
    by (simp only: g3_def g2_def g1_def batch_def eliminateHolders_def Let_def setTimeout_def
          assms prod.case snd_conv simp_thms if_False)
  have f2: "phase g2 = Playing" "light g2 = Red" "timers g2 = timers g"
    "nextHandle g2 = nextHandle g" "redDuration g2 = redDuration g"
    "players g2 = map (\<lambda>kp. (fst kp, sweep (snd kp))) (players g)"
    using assms by (simp_all add: g2_def g1_def)
  then have f3: "phase g3 = Playing" "light g3 = Red" "timers g3 = timers g"
    "nextHandle g3 = nextHandle g" "redDuration g3 = redDuration g"
    "players g3 = map (\<lambda>kp. (fst kp, sweep (snd kp))) (players g)"
    by (simp_all add: g3_def)
  have al: "getAlivePlayers g3 = survivors g"
    unfolding getAlivePlayers_def survivors_def f3 by (rule filter_alive_sweep)
  obtain xs where x2: "outbox g2 = outbox g @ xs" and q2: "List.map_filter announcement xs = []"
    by (cases "length batch > 0")
       (auto simp: g2_def g1_def map_filter_append no_announcement_eliminated)
  obtain ys where "outbox g3 = outbox g2 @ ys" and "List.map_filter announcement ys = []"
    using outbox_broadcastAll [of g2] unfolding g3_def by blast
  with x2 q2 have x3: "outbox g3 = outbox g @ (xs @ ys)"
    and q3: "List.map_filter announcement (xs @ ys) = []"
    by (simp_all add: map_filter_append)
  have a: "survivors g = [] \<longrightarrow>
           phase (eliminateHolders r g) = GameOver \<and> announced g (eliminateHolders r g) = [None]"
    using announced_endGame [OF x3, of None] q3 by (simp add: unfold al)
  have b: "survivors g = [w] \<longrightarrow>
           phase (eliminateHolders r g) = GameOver \<and>
           announced g (eliminateHolders r g) = [Some (player_id w, name w)]"
    using announced_endGame [OF x3, of "Some w"] q3 by (simp add: unfold al)
  have c: "length (survivors g) \<ge> 2 \<longrightarrow>
           phase (eliminateHolders r g) = Playing \<and> light (eliminateHolders r g) = Red \<and>
           announced g (eliminateHolders r g) = [] \<and>
           timers (eliminateHolders r g) =
             timers g @ [\<lparr>handle = nextHandle g, callback = CbSwitchToGreen,
                          delay = randomBetween r (redDuration g), repeats = False\<rparr>] \<and>
           lightTimer (eliminateHolders r g) = Some (nextHandle g)"
  proof
    assume two: "length (survivors g) \<ge> 2"
    let ?g4 = "(snd (setTimeout CbSwitchToGreen (randomBetween r (redDuration g3)) g3))
              \<lparr>lightTimer := Some (nextHandle g3)\<rparr>"
    from two have "survivors g \<noteq> []" and "length (survivors g) \<noteq> 1" by auto
    then have e: "eliminateHolders r g = ?g4" by (simp add: unfold al)
    have "outbox ?g4 = outbox g @ (xs @ ys)" using x3 by (simp add: setTimeout_def)
    from announced_same [OF this] q3 have "announced g ?g4 = []" by simp
    then show "phase (eliminateHolders r g) = Playing \<and> light (eliminateHolders r g) = Red \<and>
           announced g (eliminateHolders r g) = [] \<and>
           timers (eliminateHolders r g) =
             timers g @ [\<lparr>handle = nextHandle g, callback = CbSwitchToGreen,
                          delay = randomBetween r (redDuration g), repeats = False\<rparr>] \<and>
           lightTimer (eliminateHolders r g) = Some (nextHandle g)"
      unfolding e using f3 by (simp add: setTimeout_def)
  qed
  from a b c show ?thesis by blast
qed

subsection \<open>The first of a stable sort, and the progress tick\<close>




lemma tickPlayers_Cons:
  "tickPlayers toWin rate clock k ((i, p) # ps) =
     ((i, fst (tickPlayer toWin rate (clock k) p)) #
        fst (tickPlayers toWin rate clock
               (if snd (tickPlayer toWin rate (clock k) p) then Suc k else k) ps),
      snd (tickPlayer toWin rate (clock k) p) \<or>
        snd (tickPlayers toWin rate clock
               (if snd (tickPlayer toWin rate (clock k) p) then Suc k else k) ps))"
  by (simp split: prod.splits)

lemma tickPlayers_keys:
  "map fst (fst (tickPlayers toWin rate clock k ps)) = map fst ps"
proof (induction ps arbitrary: k)
  case Nil
  then show ?case by simp
next
  case (Cons a ps)
  then show ?case by (cases a) (simp add: tickPlayers_Cons del: tickPlayers.simps)
qed


lemma tickPlayer_stamp:
  "finishedAt (fst (tickPlayer toWin rate now p)) =
     (if snd (tickPlayer toWin rate now p) then Some now else finishedAt p)"
  by (auto simp: tickPlayer_def Let_def split: if_splits)



lemma tickPlayers_finisher:
  assumes "\<forall>k. 0 < clock k" and "snd (tickPlayers toWin rate clock k ps)"
  shows "\<exists>kp \<in> set (fst (tickPlayers toWin rate clock k ps)). truthy (finishedAt (snd kp))"
  using assms(2)
proof (induction ps arbitrary: k)
  case Nil
  then show ?case by simp
next
  case (Cons a ps)
  obtain i p where a: "a = (i, p)" by (cases a)
  have "clock k \<noteq> 0" using assms(1) by (simp add: less_imp_neq [symmetric])
  show ?case
  proof (cases "snd (tickPlayer toWin rate (clock k) p)")
    case True
    with \<open>clock k \<noteq> 0\<close> show ?thesis
      by (simp add: a tickPlayers_Cons tickPlayer_stamp truthy_def del: tickPlayers.simps)
  next
    case False
    with Cons.prems have "snd (tickPlayers toWin rate clock k ps)"
      by (simp add: a tickPlayers_Cons del: tickPlayers.simps)
    from Cons.IH [OF this] False show ?thesis
      by (simp add: a tickPlayers_Cons del: tickPlayers.simps)
  qed
qed

lemma progressTick_unfold:
  assumes "phase g = Playing" and "light g = Green"
  shows "progressTick clock g =
     (if snd (tickPlayers (progressToWin g) (progressRate g) clock 0 (players g))
      then checkForWinner (broadcastAll
             (g\<lparr>players := fst (tickPlayers (progressToWin g) (progressRate g) clock 0 (players g))\<rparr>))
      else broadcastAll
             (g\<lparr>players := fst (tickPlayers (progressToWin g) (progressRate g) clock 0 (players g))\<rparr>))"
  using assms by (simp add: progressTick_def Let_def split: prod.splits)


lemma players_checkForWinner [simp]: "players (checkForWinner g) = players g"
  by (simp add: checkForWinner_def)

lemma players_progressTick:
  "phase g = Playing \<Longrightarrow> light g = Green \<Longrightarrow>
   players (progressTick clock g) =
     fst (tickPlayers (progressToWin g) (progressRate g) clock 0 (players g))"
  by (simp add: progressTick_unfold)

subsection \<open>Progress only grows\<close>

lemma reg_le_refl [simp]: "reg_le ps ps"
  by (simp add: reg_le_def)

lemma reg_le_trans: "reg_le a b \<Longrightarrow> reg_le b c \<Longrightarrow> reg_le a c"
  unfolding reg_le_def by (meson order_trans)

lemma reg_le_map_entry:
  "(\<And>q. progress q \<le> progress (f q)) \<Longrightarrow> reg_le ps (AList.map_entry k f ps)"
  by (auto simp: reg_le_def AList.map_of_map_entry split: if_splits option.splits)

lemma reg_le_delete: "reg_le ps (AList.delete k ps)"
  by (auto simp: reg_le_def AList.delete_conv' split: if_splits)

lemma reg_le_map_snd:
  "(\<And>q. progress q \<le> progress (f q)) \<Longrightarrow> reg_le ps (map (\<lambda>kp. (fst kp, f (snd kp))) ps)"
  by (auto simp: reg_le_def map_of_map_snd)

lemma tickPlayer_progress:
  "progress (fst (tickPlayer toWin rate now p)) =
     (if alive p \<and> holding p \<and> \<not> truthy (finishedAt p)
      then min toWin (progress p + rate) else progress p)"
  by (simp add: tickPlayer_def Let_def)

lemma map_of_tickPlayers:
  "map_of ps key = Some p \<Longrightarrow>
   \<exists>n. map_of (fst (tickPlayers toWin rate clock k ps)) key = Some (fst (tickPlayer toWin rate n p))"
proof (induction ps arbitrary: k)
  case Nil
  then show ?case by simp
next
  case (Cons a ps)
  obtain i q where a: "a = (i, q)" by (cases a)
  show ?case
  proof (cases "i = key")
    case True
    with Cons.prems a show ?thesis
      by (auto simp: tickPlayers_Cons simp del: tickPlayers.simps)
  next
    case False
    with Cons.prems a have "map_of ps key = Some p" by simp
    from Cons.IH [OF this] False a show ?thesis
      by (simp add: tickPlayers_Cons del: tickPlayers.simps)
  qed
qed

lemma map_of_tickPlayers_None:
  "map_of ps key = None \<Longrightarrow> map_of (fst (tickPlayers toWin rate clock k ps)) key = None"
  using tickPlayers_keys [of toWin rate clock k ps]
  by (metis map_of_eq_None_iff set_map)

lemma reg_le_tickPlayers:
  assumes "0 \<le> rate" and "\<forall>kp \<in> set ps. progress (snd kp) \<le> toWin"
  shows "reg_le ps (fst (tickPlayers toWin rate clock k ps))"
  unfolding reg_le_def
proof (intro allI impI)
  fix key p'
  assume p': "map_of (fst (tickPlayers toWin rate clock k ps)) key = Some p'"
  then obtain p where p: "map_of ps key = Some p"
    using map_of_tickPlayers_None [of ps key toWin rate clock k] by (cases "map_of ps key") auto
  then have "(key, p) \<in> set ps" by (rule map_of_SomeD)
  with assms(2) have le: "progress p \<le> toWin" by auto
  from map_of_tickPlayers [OF p, of toWin rate clock k] p' obtain n
    where "p' = fst (tickPlayer toWin rate n p)" by auto
  with le assms(1) have "progress p \<le> progress p'"
    by (simp add: tickPlayer_progress)
  with p show "\<exists>p. map_of ps key = Some p \<and> progress p \<le> progress p'" by blast
qed

lemma bounded_tickPlayers:
  assumes "0 \<le> rate" and "\<forall>kp \<in> set ps. 0 \<le> progress (snd kp) \<and> progress (snd kp) \<le> toWin"
  shows "\<forall>kp \<in> set (fst (tickPlayers toWin rate clock k ps)).
           0 \<le> progress (snd kp) \<and> progress (snd kp) \<le> toWin"
  using assms(2)
proof (induction ps arbitrary: k)
  case Nil
  then show ?case by simp
next
  case (Cons a ps)
  obtain i q where a: "a = (i, q)" by (cases a)
  with Cons assms(1) show ?case
    by (simp add: tickPlayers_Cons tickPlayer_progress del: tickPlayers.simps)
qed

lemma config_simple [simp]:
  "config (emit t m g) = config g"
  "config (broadcastGameState g) = config g"
  "config (broadcastToPhones g) = config g"
  "config (broadcastAll g) = config g"
  "config (clearTimer h g) = config g"
  "config (stopProgressTracking g) = config g"
  "config (endGame w g) = config g"
  "config (snd (setTimeout cb d g)) = config g"
  "config (snd (setInterval cb d g)) = config g"
  by (simp_all add: config_def setTimeout_def setInterval_def)

lemma config_updates [simp]:
  "config (g\<lparr>players := ps\<rparr>) = config g"
  "config (g\<lparr>timers := ts\<rparr>) = config g"
  "config (g\<lparr>phase := ph\<rparr>) = config g"
  "config (g\<lparr>light := l\<rparr>) = config g"
  "config (g\<lparr>eliminationPending := b\<rparr>) = config g"
  "config (g\<lparr>lightTimer := h\<rparr>) = config g"
  "config (g\<lparr>graceTimer := h\<rparr>) = config g"
  "config (g\<lparr>countdownTimer := h\<rparr>) = config g"
  "config (g\<lparr>progressInterval := h\<rparr>) = config g"
  "config (g\<lparr>round_num := n\<rparr>) = config g"
  "config (g\<lparr>outbox := ob\<rparr>) = config g"
  by (simp_all add: config_def)

lemma config_startProgressTracking [simp]: "config (startProgressTracking g) = config g"
  by (simp add: startProgressTracking_def Let_def case_prod_beta)

lemma config_switchToRed [simp]: "config (switchToRed g) = config g"
  by (simp add: switchToRed_def Let_def case_prod_beta)

lemma config_switchToGreen [simp]: "config (switchToGreen r g) = config g"
  by (simp add: switchToGreen_def Let_def case_prod_beta)

lemma config_eliminateHolders [simp]: "config (eliminateHolders r g) = config g"
  by (simp add: eliminateHolders_def Let_def case_prod_beta)

lemma config_checkForWinner [simp]: "config (checkForWinner g) = config g"
  by (simp add: checkForWinner_def)

lemma config_progressTick [simp]: "config (progressTick clock g) = config g"
  by (simp add: progressTick_def Let_def case_prod_beta)

lemma config_emitCountdown [simp]: "config (emitCountdown c g) = config g"
  by (simp add: emitCountdown_def Let_def)

lemma config_countdownTick [simp]: "config (countdownTick h c r g) = config g"
  by (simp add: countdownTick_def Let_def)

lemma config_fire [simp]: "config (fire h r clock g) = config g"
  by (simp add: fire_def Let_def split: option.splits callback.splits)

lemma config_startGame [simp]: "config (startGame g) = config g"
  by (simp add: startGame_def Let_def case_prod_beta)

lemma config_resetGame [simp]: "config (resetGame g) = config g"
  by (simp add: resetGame_def Let_def)

lemma config_step [simp]: "config (step e g) = config g"
  by (cases e)
     (simp_all add: on_joinTV_def on_joinGame_def on_holdStart_def on_holdEnd_def
        on_startGame_def on_resetGame_def on_kickPlayer_def on_disconnect_def Let_def
        split: option.splits)

lemma players_simple [simp]:
  "players (snd (setTimeout cb d g)) = players g"
  "players (snd (setInterval cb d g)) = players g"
  "players (emitCountdown c g) = players g"
  by (simp_all add: setTimeout_def setInterval_def emitCountdown_def Let_def)

lemma players_startProgressTracking [simp]: "players (startProgressTracking g) = players g"
  by (simp add: startProgressTracking_def Let_def case_prod_beta)

lemma players_switchToRed [simp]: "players (switchToRed g) = players g"
  by (simp add: switchToRed_def Let_def case_prod_beta)

lemma players_switchToGreen [simp]: "players (switchToGreen r g) = players g"
  by (simp add: switchToGreen_def Let_def case_prod_beta)

lemma players_countdownTick [simp]: "players (countdownTick h c r g) = players g"
  by (simp add: countdownTick_def Let_def)

lemma players_progressTick_any:
  "players (progressTick clock g) =
     (if phase g = Playing \<and> light g = Green
      then fst (tickPlayers (progressToWin g) (progressRate g) clock 0 (players g))
      else players g)"
  by (simp add: progressTick_def Let_def case_prod_beta)

lemma players_fire:
  "players (fire h r clock g) = players g \<or>
   players (fire h r clock g) = map (\<lambda>kp. (fst kp, sweep (snd kp))) (players g) \<or>
   players (fire h r clock g) =
     fst (tickPlayers (progressToWin g) (progressRate g) clock 0 (players g))"
  by (simp add: fire_def Let_def eliminateHolders_players players_progressTick_any
        split: option.splits callback.splits)

lemma players_on_holdStart:
  "players (on_holdStart sid g) = players g \<or>
   players (on_holdStart sid g) = AList.map_entry sid (\<lambda>q. q\<lparr>holding := True\<rparr>) (players g) \<or>
   players (on_holdStart sid g) =
     AList.map_entry sid (\<lambda>q. q\<lparr>alive := False, eliminated := True\<rparr>)
       (AList.map_entry sid (\<lambda>q. q\<lparr>holding := True\<rparr>) (players g))"
  by (simp add: on_holdStart_def Let_def split: option.splits)

lemma players_on_disconnect:
  "players (on_disconnect sid g) = players g \<or>
   players (on_disconnect sid g) = AList.delete sid (players g) \<or>
   players (on_disconnect sid g) =
     AList.map_entry sid (\<lambda>q. q\<lparr>alive := False, holding := False\<rparr>) (players g)"
  by (simp add: on_disconnect_def Let_def split: option.splits)

lemma players_on_kickPlayer: "players (on_kickPlayer sid k g) = AList.delete k (players g)"
  by (simp add: on_kickPlayer_def Let_def)

lemma sweep_progress: "progress (sweep p) = progress p"
  by (simp add: sweep_def)

lemma step_reg_le:
  assumes "in_match e" and "progress_ok g"
  shows "reg_le (players g) (players (step e g))"
proof (cases e)
  case (HoldStart sid)
  let ?a = "AList.map_entry sid (\<lambda>q. q\<lparr>holding := True\<rparr>) (players g)"
  have a: "reg_le (players g) ?a" by (rule reg_le_map_entry) simp
  have "reg_le ?a (AList.map_entry sid (\<lambda>q. q\<lparr>alive := False, eliminated := True\<rparr>) ?a)"
    by (rule reg_le_map_entry) simp
  with a have "reg_le (players g)
      (AList.map_entry sid (\<lambda>q. q\<lparr>alive := False, eliminated := True\<rparr>) ?a)"
    by (rule reg_le_trans)
  with a players_on_holdStart [of sid g] HoldStart show ?thesis by auto
next
  case (HoldEnd sid)
  then show ?thesis by (simp add: on_holdEnd_players reg_le_map_entry)
next
  case (KickPlayer sid k)
  then show ?thesis by (simp add: players_on_kickPlayer reg_le_delete)
next
  case (Disconnect sid)
  with players_on_disconnect [of sid g] show ?thesis
    by (auto intro!: reg_le_map_entry reg_le_delete)
next
  case (Fire h r clock)
  have "reg_le (players g) (map (\<lambda>kp. (fst kp, sweep (snd kp))) (players g))"
    by (rule reg_le_map_snd) (simp add: sweep_progress)
  moreover have "reg_le (players g)
      (fst (tickPlayers (progressToWin g) (progressRate g) clock 0 (players g)))"
    using assms(2) by (intro reg_le_tickPlayers) (auto simp: progress_ok_def)
  ultimately show ?thesis
    using players_fire [of h r clock g] Fire by auto
qed (use assms in \<open>simp_all add: on_joinTV_def\<close>)

lemma progress_ok_iff:
  "progress_ok g \<longleftrightarrow> config g = (100, 5 / 2) \<and> bounded (players g)"
  by (auto simp: progress_ok_def config_def bounded_def)

lemma set_map_entry:
  "kp \<in> set (AList.map_entry k f ps) \<Longrightarrow>
     kp \<in> set ps \<or> (\<exists>v. (k, v) \<in> set ps \<and> kp = (k, f v))"
  by (induction ps) (auto split: if_splits)

lemma set_update:
  "kp \<in> set (AList.update k v ps) \<Longrightarrow> kp \<in> set ps \<or> kp = (k, v)"
  by (induction ps) (auto split: if_splits)

lemma bounded_map_entry:
  assumes "bounded ps" and "\<And>q. progress (f q) = progress q"
  shows "bounded (AList.map_entry k f ps)"
  unfolding bounded_def
proof
  fix kp assume "kp \<in> set (AList.map_entry k f ps)"
  from set_map_entry [OF this] assms
  show "0 \<le> progress (snd kp) \<and> progress (snd kp) \<le> 100"
    unfolding bounded_def by fastforce
qed

lemma bounded_delete: "bounded ps \<Longrightarrow> bounded (AList.delete k ps)"
  by (auto simp: bounded_def AList.delete_eq)

lemma bounded_update:
  assumes "bounded ps" and "0 \<le> progress v" and "progress v \<le> 100"
  shows "bounded (AList.update k v ps)"
  unfolding bounded_def
proof
  fix kp assume "kp \<in> set (AList.update k v ps)"
  from set_update [OF this] assms
  show "0 \<le> progress (snd kp) \<and> progress (snd kp) \<le> 100"
    unfolding bounded_def by fastforce
qed

lemma bounded_map_snd:
  "(\<And>q. 0 \<le> progress q \<and> progress q \<le> 100 \<Longrightarrow> 0 \<le> progress (f q) \<and> progress (f q) \<le> 100)
   \<Longrightarrow> bounded ps \<Longrightarrow> bounded (map (\<lambda>kp. (fst kp, f (snd kp))) ps)"
  by (auto simp: bounded_def)

lemma players_on_joinGame:
  "players (on_joinGame sid nm g) = players g \<or>
   players (on_joinGame sid nm g) = AList.update sid (createPlayer sid (trim nm)) (players g)"
  by (simp add: on_joinGame_def Let_def)

lemma players_startGame [simp]: "players (startGame g) = players g"
  by (simp add: startGame_def Let_def case_prod_beta)

lemma players_on_startGame:
  "players (on_startGame sid g) = players g \<or>
   players (on_startGame sid g) = map (\<lambda>kp. (fst kp, pristine (snd kp))) (players g)"
  by (simp add: on_startGame_def)

lemma step_bounded:
  assumes "config g = (100, 5 / 2)" and "bounded (players g)"
  shows "bounded (players (step e g))"
proof (cases e)
  case (JoinGame sid nm)
  have "bounded (AList.update sid (createPlayer sid (trim nm)) (players g))"
    using assms(2) by (rule bounded_update) (simp_all add: createPlayer_def)
  with players_on_joinGame [of sid nm g] assms(2) JoinGame show ?thesis by auto
next
  case (HoldStart sid)
  let ?a = "AList.map_entry sid (\<lambda>q. q\<lparr>holding := True\<rparr>) (players g)"
  have a: "bounded ?a" using assms(2) by (rule bounded_map_entry) simp
  then have "bounded (AList.map_entry sid (\<lambda>q. q\<lparr>alive := False, eliminated := True\<rparr>) ?a)"
    by (rule bounded_map_entry) simp
  with a players_on_holdStart [of sid g] assms(2) HoldStart show ?thesis by auto
next
  case (HoldEnd sid)
  with assms(2) show ?thesis by (simp add: on_holdEnd_players bounded_map_entry)
next
  case (StartGame sid)
  have "bounded (map (\<lambda>kp. (fst kp, pristine (snd kp))) (players g))"
    using assms(2) by (intro bounded_map_snd) (simp_all add: pristine_fields)
  with players_on_startGame [of sid g] assms(2) StartGame show ?thesis by auto
next
  case (ResetGame sid)
  have "bounded (map (\<lambda>kp. (fst kp, pristine (snd kp))) (players g))"
    using assms(2) by (intro bounded_map_snd) (simp_all add: pristine_fields)
  with ResetGame show ?thesis by (simp add: on_resetGame_def resetGame_players)
next
  case (KickPlayer sid k)
  with assms(2) show ?thesis by (simp add: players_on_kickPlayer bounded_delete)
next
  case (Disconnect sid)
  have "bounded (AList.map_entry sid (\<lambda>q. q\<lparr>alive := False, holding := False\<rparr>) (players g))"
    using assms(2) by (rule bounded_map_entry) simp
  with players_on_disconnect [of sid g] assms(2) Disconnect show ?thesis
    by (auto simp: bounded_delete)
next
  case (Fire h r clock)
  have "bounded (map (\<lambda>kp. (fst kp, sweep (snd kp))) (players g))"
    using assms(2) by (intro bounded_map_snd) (simp_all add: sweep_progress)
  moreover have "bounded (fst (tickPlayers (progressToWin g) (progressRate g) clock 0 (players g)))"
  proof -
    have c: "progressToWin g = 100" "progressRate g = 5 / 2"
      using assms(1) by (simp_all add: config_def)
    have "(0::real) \<le> 5 / 2" by simp
    from bounded_tickPlayers [OF this, of "players g" 100 clock 0] assms(2)
    show ?thesis unfolding c bounded_def by blast
  qed
  ultimately show ?thesis
    using players_fire [of h r clock g] Fire assms(2) by auto
qed (use assms in \<open>simp_all add: on_joinTV_def\<close>)

lemma step_progress_ok: "progress_ok g \<Longrightarrow> progress_ok (step e g)"
  by (simp add: progress_ok_iff step_bounded)

lemma reachable_progress_ok: "reachable g \<Longrightarrow> progress_ok g"
proof (induction rule: reachable.induct)
  case reachable_init
  show ?case by (simp add: progress_ok_def initial_game_def)
next
  case (reachable_step g e)
  then show ?case by (simp add: step_progress_ok)
qed

lemma run_progress:
  assumes "\<forall>e \<in> set es. in_match e" and "progress_ok g"
  shows "progress_ok (run es g) \<and> reg_le (players g) (players (run es g))"
  using assms
proof (induction es arbitrary: g)
  case Nil
  then show ?case by (simp add: run_def)
next
  case (Cons e es)
  from Cons.prems have ok: "progress_ok (step e g)" and le: "reg_le (players g) (players (step e g))"
    by (simp_all add: step_progress_ok step_reg_le)
  from Cons.IH [OF _ ok] Cons.prems(1)
  have "progress_ok (run es (step e g))"
    and "reg_le (players (step e g)) (players (run es (step e g)))" by simp_all
  with le show ?case by (auto simp: run_def intro: reg_le_trans)
qed

subsection \<open>The invariant of the match\<close>

lemma is_countdown_simps [simp]:
  "\<not> is_countdown CbSwitchToRed" "\<not> is_countdown CbSwitchToGreen"
  "\<not> is_countdown CbEliminateHolders" "\<not> is_countdown CbProgressTick"
  "is_countdown (CbCountdown c)"
  by (simp_all add: is_countdown_def)

lemma cds_simple [simp]:
  "cds (emit t m g) = cds g"
  "cds (broadcastGameState g) = cds g"
  "cds (broadcastToPhones g) = cds g"
  "cds (broadcastAll g) = cds g"
  "cds (emitCountdown c g) = cds g"
  by (simp_all add: cds_def emitCountdown_def Let_def)

lemma cds_updates [simp]:
  "cds (g\<lparr>players := ps\<rparr>) = cds g"
  "cds (g\<lparr>phase := ph\<rparr>) = cds g"
  "cds (g\<lparr>light := l\<rparr>) = cds g"
  "cds (g\<lparr>eliminationPending := b\<rparr>) = cds g"
  "cds (g\<lparr>lightTimer := h\<rparr>) = cds g"
  "cds (g\<lparr>graceTimer := h\<rparr>) = cds g"
  "cds (g\<lparr>countdownTimer := h\<rparr>) = cds g"
  "cds (g\<lparr>progressInterval := h\<rparr>) = cds g"
  "cds (g\<lparr>round_num := n\<rparr>) = cds g"
  "cds (g\<lparr>outbox := ob\<rparr>) = cds g"
  by (simp_all add: cds_def)

lemma cds_clearTimer: "cds (clearTimer h g) = {t \<in> cds g. h \<noteq> Some (handle t)}"
  by (cases h) (auto simp: cds_def clearTimer_def)

lemma cds_clearTimer_subset: "cds (clearTimer h g) \<subseteq> cds g"
  by (auto simp: cds_clearTimer)

lemma cds_setTimeout [simp]:
  "\<not> is_countdown cb \<Longrightarrow> cds (snd (setTimeout cb d g)) = cds g"
  by (auto simp: cds_def setTimeout_def)

lemma cds_setInterval [simp]:
  "\<not> is_countdown cb \<Longrightarrow> cds (snd (setInterval cb d g)) = cds g"
  by (auto simp: cds_def setInterval_def)

lemma cds_stopProgressTracking: "cds (stopProgressTracking g) \<subseteq> cds g"
  by (auto simp: stopProgressTracking_def cds_clearTimer)

lemma cds_startProgressTracking: "cds (startProgressTracking g) \<subseteq> cds g"
  by (auto simp: startProgressTracking_def Let_def case_prod_beta cds_clearTimer)

lemma cds_endGame: "cds (endGame w g) \<subseteq> cds g"
proof -
  have "cds (endGame w g) \<subseteq>
        cds (clearTimer (graceTimer g) (clearTimer (lightTimer g) (g\<lparr>phase := GameOver\<rparr>)))"
    using cds_stopProgressTracking by (simp add: endGame_def Let_def)
  also have "\<dots> \<subseteq> cds g" by (auto simp: cds_clearTimer)
  finally show ?thesis .
qed

lemma cds_switchToRed: "cds (switchToRed g) = cds g"
  by (simp add: switchToRed_def Let_def case_prod_beta)

lemma cds_switchToGreen: "cds (switchToGreen r g) = cds g"
  by (simp add: switchToGreen_def Let_def case_prod_beta)

lemma countdownTimer_simple [simp]:
  "countdownTimer (snd (setTimeout cb d g)) = countdownTimer g"
  "countdownTimer (snd (setInterval cb d g)) = countdownTimer g"
  "countdownTimer (emitCountdown c g) = countdownTimer g"
  "countdownTimer (stopProgressTracking g) = countdownTimer g"
  by (simp_all add: setTimeout_def setInterval_def emitCountdown_def Let_def)

lemma countdownTimer_startProgressTracking [simp]:
  "countdownTimer (startProgressTracking g) = countdownTimer g"
  by (simp add: startProgressTracking_def Let_def case_prod_beta)

lemma countdownTimer_switchToRed [simp]: "countdownTimer (switchToRed g) = countdownTimer g"
  by (simp add: switchToRed_def Let_def case_prod_beta)

lemma countdownTimer_switchToGreen [simp]: "countdownTimer (switchToGreen r g) = countdownTimer g"
  by (simp add: switchToGreen_def Let_def case_prod_beta)

lemma countdown_ok_keep:
  assumes "countdown_ok g" and "cds g' \<subseteq> cds g"
    and "phase g' = phase g \<or> phase g \<noteq> Countdown"
    and "countdownTimer g' = countdownTimer g"
  shows "countdown_ok g'"
  using assms unfolding countdown_ok_def by auto

lemma unfinished_map_entry:
  assumes "unfinished ps" and "\<And>q. finishedAt (f q) = finishedAt q"
  shows "unfinished (AList.map_entry k f ps)"
  unfolding unfinished_def
proof
  fix kp assume "kp \<in> set (AList.map_entry k f ps)"
  from set_map_entry [OF this] assms show "finishedAt (snd kp) = None"
    unfolding unfinished_def by fastforce
qed

lemma unfinished_delete: "unfinished ps \<Longrightarrow> unfinished (AList.delete k ps)"
  by (auto simp: unfinished_def AList.delete_eq)

lemma unfinished_update:
  assumes "unfinished ps" and "finishedAt v = None"
  shows "unfinished (AList.update k v ps)"
  unfolding unfinished_def
proof
  fix kp assume "kp \<in> set (AList.update k v ps)"
  from set_update [OF this] assms show "finishedAt (snd kp) = None"
    unfolding unfinished_def by fastforce
qed

lemma unfinished_pristine: "unfinished (map (\<lambda>kp. (fst kp, pristine (snd kp))) ps)"
  by (auto simp: unfinished_def pristine_fields)

lemma unfinished_sweep:
  "unfinished ps \<Longrightarrow> unfinished (map (\<lambda>kp. (fst kp, sweep (snd kp))) ps)"
  by (auto simp: unfinished_def sweep_fields)

lemma unfinished_tickPlayers:
  "unfinished ps \<Longrightarrow> \<not> snd (tickPlayers toWin rate clock k ps) \<Longrightarrow>
   unfinished (fst (tickPlayers toWin rate clock k ps))"
proof (induction ps arbitrary: k)
  case Nil
  then show ?case by simp
next
  case (Cons a ps)
  obtain i p where a: "a = (i, p)" by (cases a)
  from Cons.prems have no: "\<not> snd (tickPlayer toWin rate (clock k) p)"
    and rest: "\<not> snd (tickPlayers toWin rate clock k ps)"
    by (auto simp: a tickPlayers_Cons simp del: tickPlayers.simps)
  from Cons.prems have "unfinished ps" and "finishedAt p = None"
    by (simp_all add: unfinished_def a)
  with Cons.IH [OF _ rest] no show ?case
    by (simp add: a tickPlayers_Cons tickPlayer_stamp unfinished_def del: tickPlayers.simps)
qed

lemma phase_eliminateHolders:
  "phase (eliminateHolders r g) = phase g \<or>
   (phase g = Playing \<and> phase (eliminateHolders r g) = GameOver)"
  by (simp add: eliminateHolders_def Let_def case_prod_beta)

lemma countdownTimer_eliminateHolders [simp]:
  "countdownTimer (eliminateHolders r g) = countdownTimer g"
  by (simp add: eliminateHolders_def Let_def case_prod_beta)

lemma cds_eliminateHolders: "cds (eliminateHolders r g) \<subseteq> cds g"
proof (cases "phase g \<noteq> Playing \<or> light g \<noteq> Red")
  case True
  then show ?thesis by (simp add: eliminateHolders_def)
next
  case False
  have e: "cds (endGame w g') \<subseteq> cds g" if "cds g' = cds g" for w g'
    using cds_endGame [of w g'] that by simp
  from False show ?thesis
    by (simp add: eliminateHolders_def Let_def case_prod_beta e)
qed

lemma match_inv_eliminateHolders:
  assumes "match_inv g"
  shows "match_inv (eliminateHolders r g)"
proof -
  have "countdown_ok (eliminateHolders r g)"
  proof (rule countdown_ok_keep [of g])
    show "countdown_ok g" using assms by (simp add: match_inv_def)
    show "cds (eliminateHolders r g) \<subseteq> cds g" by (rule cds_eliminateHolders)
    show "phase (eliminateHolders r g) = phase g \<or> phase g \<noteq> Countdown"
      using phase_eliminateHolders [of r g] by auto
    show "countdownTimer (eliminateHolders r g) = countdownTimer g" by simp
  qed
  moreover have "unfinished (players (eliminateHolders r g))"
    if "phase (eliminateHolders r g) = Countdown \<or> phase (eliminateHolders r g) = Playing"
  proof -
    from that phase_eliminateHolders [of r g]
    have "phase g = Countdown \<or> phase g = Playing" by auto
    with assms have "unfinished (players g)" by (simp add: match_inv_def)
    then show ?thesis by (simp add: eliminateHolders_players unfinished_sweep)
  qed
  ultimately show ?thesis by (auto simp: match_inv_def)
qed

lemma cds_checkForWinner: "cds (checkForWinner g) \<subseteq> cds g"
  by (simp add: checkForWinner_def cds_endGame)

lemma countdownTimer_checkForWinner [simp]:
  "countdownTimer (checkForWinner g) = countdownTimer g"
  by (simp add: checkForWinner_def)

lemma match_inv_progressTick:
  assumes "match_inv g" and clock: "\<forall>k. 0 < clock k"
  shows "match_inv (progressTick clock g)"
proof (cases "phase g = Playing \<and> light g = Green")
  case False
  with assms show ?thesis by (auto simp: progressTick_def)
next
  case True
  let ?t = "tickPlayers (progressToWin g) (progressRate g) clock 0 (players g)"
  let ?g1 = "broadcastAll (g\<lparr>players := fst ?t\<rparr>)"
  from True have un: "progressTick clock g = (if snd ?t then checkForWinner ?g1 else ?g1)"
    by (simp add: progressTick_unfold)
  from assms(1) True have cd: "countdown_ok g" and unf: "unfinished (players g)"
    by (simp_all add: match_inv_def)
  show ?thesis
  proof (cases "snd ?t")
    case False
    with un have e: "progressTick clock g = ?g1" by simp
    have "countdown_ok ?g1" using cd by (rule countdown_ok_keep) simp_all
    moreover have "unfinished (players ?g1)"
      using unfinished_tickPlayers [OF unf False] by simp
    ultimately show ?thesis by (simp add: e match_inv_def)
  next
    case fin: True
    from tickPlayers_finisher [OF clock fin] have "finishers ?g1 \<noteq> []"
      by (auto simp: finishers_def filter_empty_conv)
    with un fin have e: "progressTick clock g = endGame (Some (hd (sort_key stamp (finishers ?g1)))) ?g1"
      by (simp add: checkForWinner_def)
    have "countdown_ok (progressTick clock g)"
      using cd
    proof (rule countdown_ok_keep)
      show "cds (progressTick clock g) \<subseteq> cds g"
        unfolding e using cds_endGame [of _ ?g1] by simp
      show "phase (progressTick clock g) = phase g \<or> phase g \<noteq> Countdown"
        using True by simp
      show "countdownTimer (progressTick clock g) = countdownTimer g"
        unfolding e by simp
    qed
    moreover have "phase (progressTick clock g) = GameOver" unfolding e by simp
    ultimately show ?thesis by (simp add: match_inv_def)
  qed
qed

lemma match_inv_switchToRed: "match_inv g \<Longrightarrow> match_inv (switchToRed g)"
  unfolding match_inv_def
  using countdown_ok_keep [of g "switchToRed g"]
  by (simp add: cds_switchToRed phase_switchToRed)

lemma match_inv_switchToGreen: "match_inv g \<Longrightarrow> match_inv (switchToGreen r g)"
  unfolding match_inv_def
  using countdown_ok_keep [of g "switchToGreen r g"]
  by (simp add: cds_switchToGreen phase_switchToGreen)

lemma cds_countdownTick_done:
  assumes "\<forall>t \<in> cds g. handle t = h" and "countdownTimer g = Some h"
  shows "cds (clearTimer (countdownTimer g)
           (g\<lparr>timers := map (\<lambda>t. if handle t = h then t\<lparr>callback := cb\<rparr> else t) (timers g)\<rparr>)) = {}"
  using assms by (auto simp: cds_clearTimer) (auto simp: cds_def split: if_splits)

lemma match_inv_countdownTick:
  assumes "match_inv g" and "phase g = Countdown" and "countdownTimer g = Some h"
  shows "match_inv (countdownTick h c r g)"
proof -
  from assms have unf: "unfinished (players g)" and all: "\<forall>t \<in> cds g. handle t = h"
    by (auto simp: match_inv_def countdown_ok_def)
  let ?g1 = "g\<lparr>timers := map (\<lambda>t. if handle t = h then t\<lparr>callback := CbCountdown (c - 1)\<rparr> else t)
                              (timers g)\<rparr>"
  show ?thesis
  proof (cases "c - 1 > 0")
    case True
    then have e: "countdownTick h c r g = emitCountdown (c - 1) ?g1"
      by (simp add: countdownTick_def Let_def)
    have "\<forall>t \<in> cds ?g1. handle t = h"
      using all by (auto simp: cds_def split: if_splits)
    then have "countdown_ok (emitCountdown (c - 1) ?g1)"
      using assms(2,3) by (simp add: countdown_ok_def)
    with unf assms(2) show ?thesis by (simp add: e match_inv_def)
  next
    case False
    let ?g4 = "startProgressTracking ((clearTimer (countdownTimer ?g1) ?g1)\<lparr>phase := Playing\<rparr>)"
    from False have e: "countdownTick h c r g = switchToGreen r ?g4"
      by (simp add: countdownTick_def Let_def)
    have "cds (clearTimer (countdownTimer ?g1) ?g1) = {}"
      using cds_countdownTick_done [OF all assms(3)] by simp
    with cds_startProgressTracking [of "(clearTimer (countdownTimer ?g1) ?g1)\<lparr>phase := Playing\<rparr>"]
    have "cds ?g4 = {}" by simp
    then have "countdown_ok ?g4" by (simp add: countdown_ok_def)
    with unf have "match_inv ?g4" by (simp add: match_inv_def)
    then show ?thesis unfolding e by (rule match_inv_switchToGreen)
  qed
qed

lemma match_inv_fire:
  assumes "match_inv g" and "\<forall>k. 0 < clock k"
  shows "match_inv (fire h r clock g)"
proof (cases "find (\<lambda>t. handle t = h) (timers g)")
  case None
  with assms show ?thesis by (simp add: fire_def)
next
  case (Some t)
  let ?g1 = "if repeats t then g else g\<lparr>timers := filter (\<lambda>t. handle t \<noteq> h) (timers g)\<rparr>"
  have t: "t \<in> set (timers g)" "handle t = h"
    using Some by (auto simp: find_Some_iff)
  have "countdown_ok ?g1"
    using assms(1) by (auto simp: match_inv_def countdown_ok_def cds_def)
  with assms(1) have g1: "match_inv ?g1" by (auto simp: match_inv_def)
  have e: "fire h r clock g =
      (case callback t of
                CbSwitchToRed \<Rightarrow> switchToRed ?g1
              | CbSwitchToGreen \<Rightarrow> switchToGreen r ?g1
              | CbEliminateHolders \<Rightarrow> eliminateHolders r ?g1
              | CbProgressTick \<Rightarrow> progressTick clock ?g1
              | CbCountdown c \<Rightarrow> countdownTick h c r ?g1)"
    using Some by (simp add: fire_def Let_def)
  show ?thesis
  proof (cases "callback t")
    case CbSwitchToRed
    with g1 show ?thesis unfolding e by (simp add: match_inv_switchToRed)
  next
    case CbSwitchToGreen
    with g1 show ?thesis unfolding e by (simp add: match_inv_switchToGreen)
  next
    case CbEliminateHolders
    with g1 show ?thesis unfolding e by (simp add: match_inv_eliminateHolders)
  next
    case CbProgressTick
    with g1 assms(2) show ?thesis unfolding e by (simp add: match_inv_progressTick)
  next
    case (CbCountdown c)
    with t have "t \<in> cds g" by (simp add: cds_def)
    with assms(1) t have "phase g = Countdown" "countdownTimer g = Some h"
      by (auto simp: match_inv_def countdown_ok_def)
    then have "phase ?g1 = Countdown" "countdownTimer ?g1 = Some h" by simp_all
    from match_inv_countdownTick [OF g1 this] CbCountdown show ?thesis
      unfolding e by simp
  qed
qed

lemma match_inv_players:
  assumes "match_inv g" and "unfinished (players g) \<Longrightarrow> unfinished ps"
  shows "match_inv (g\<lparr>players := ps\<rparr>)"
  using assms by (auto simp: match_inv_def countdown_ok_def)

lemma match_inv_quiet [simp]:
  "match_inv (emit t m g) = match_inv g"
  "match_inv (broadcastGameState g) = match_inv g"
  "match_inv (broadcastAll g) = match_inv g"
  by (simp_all add: match_inv_def countdown_ok_def)

lemma match_inv_on_joinGame: "match_inv g \<Longrightarrow> match_inv (on_joinGame sid nm g)"
  by (auto simp: on_joinGame_def Let_def createPlayer_def
        intro!: match_inv_players unfinished_update)

lemma match_inv_on_holdStart: "match_inv g \<Longrightarrow> match_inv (on_holdStart sid g)"
  by (auto simp: on_holdStart_def Let_def split: option.splits
        intro!: match_inv_players unfinished_map_entry)

lemma match_inv_on_holdEnd: "match_inv g \<Longrightarrow> match_inv (on_holdEnd sid g)"
  by (auto simp: on_holdEnd_def split: option.splits
        intro!: match_inv_players unfinished_map_entry)

lemma match_inv_on_kickPlayer: "match_inv g \<Longrightarrow> match_inv (on_kickPlayer sid k g)"
  by (auto simp: on_kickPlayer_def Let_def intro!: match_inv_players unfinished_delete)

lemma match_inv_on_disconnect: "match_inv g \<Longrightarrow> match_inv (on_disconnect sid g)"
  by (auto simp: on_disconnect_def Let_def split: option.splits
        intro!: match_inv_players unfinished_delete unfinished_map_entry)

lemma match_inv_resetGame: "match_inv g \<Longrightarrow> match_inv (resetGame g)"
proof -
  assume inv: "match_inv g"
  let ?g4 = "clearTimer (countdownTimer g) (clearTimer (graceTimer g) (clearTimer (lightTimer g)
              (g\<lparr>phase := Lobby, light := Red, round_num := 0\<rparr>)))"
  have "cds ?g4 = {}"
    using inv by (auto simp: cds_clearTimer match_inv_def countdown_ok_def)
  with cds_stopProgressTracking [of ?g4] have "cds (stopProgressTracking ?g4) = {}" by auto
  then have "cds (resetGame g) = {}" by (simp add: resetGame_def Let_def)
  moreover have "phase (resetGame g) = Lobby" by (simp add: resetGame_def Let_def)
  ultimately show ?thesis by (simp add: match_inv_def countdown_ok_def)
qed

lemma match_inv_on_startGame: "match_inv g \<Longrightarrow> match_inv (on_startGame sid g)"
proof (cases "phase g = Lobby \<or> phase g = GameOver")
  case False
  assume "match_inv g"
  with False show ?thesis by (simp add: on_startGame_def)
next
  case True
  assume inv: "match_inv g"
  let ?g0 = "g\<lparr>players := map (\<lambda>kp. (fst kp, pristine (snd kp))) (players g)\<rparr>"
  from inv True have none: "cds g = {}" by (auto simp: match_inv_def countdown_ok_def)
  have "match_inv (startGame ?g0)"
  proof (cases "length (players ?g0) < 1")
    case True
    have "match_inv ?g0" using inv by (rule match_inv_players) (rule unfinished_pristine)
    with True show ?thesis by (simp add: startGame_def)
  next
    case False
    then have "cds (startGame ?g0) \<subseteq> {t. handle t = nextHandle g}"
      "phase (startGame ?g0) = Countdown" "countdownTimer (startGame ?g0) = Some (nextHandle g)"
      "players (startGame ?g0) = players ?g0"
      using none
      by (auto simp: startGame_def Let_def case_prod_beta setInterval_def cds_def
            emitCountdown_def)
    then show ?thesis
      by (auto simp: match_inv_def countdown_ok_def unfinished_pristine)
  qed
  with True show ?thesis by (simp add: on_startGame_def)
qed

lemma match_inv_step: "match_inv g \<Longrightarrow> event_ok e \<Longrightarrow> match_inv (step e g)"
  by (cases e)
     (simp_all add: on_joinTV_def on_resetGame_def match_inv_on_joinGame match_inv_on_holdStart
        match_inv_on_holdEnd match_inv_on_startGame match_inv_resetGame match_inv_on_kickPlayer
        match_inv_on_disconnect match_inv_fire)

lemma reachable_match_inv: "reachable g \<Longrightarrow> match_inv g"
proof (induction rule: reachable.induct)
  case reachable_init
  show ?case by (simp add: match_inv_def countdown_ok_def cds_def initial_game_def)
next
  case (reachable_step g e)
  then show ?case by (simp add: match_inv_step)
qed

subsection \<open>A match played to the finish\<close>

lemma run_Nil [simp]: "run [] g = g"
  by (simp add: run_def)

lemma run_Cons [simp]: "run (e # es) g = run es (step e g)"
  by (simp add: run_def)

lemma reachable_run:
  "reachable g \<Longrightarrow> \<forall>e \<in> set es. event_ok e \<Longrightarrow> reachable (run es g)"
proof (induction es arbitrary: g)
  case Nil
  then show ?case by simp
next
  case (Cons e es)
  from Cons.prems have "reachable (step e g)" by (simp add: reachable_step)
  with Cons show ?case by simp
qed

lemma fire_progressTick:
  assumes "find (\<lambda>t. handle t = h) (timers g) =
             Some \<lparr>handle = h, callback = CbProgressTick, delay = d, repeats = True\<rparr>"
  shows "fire h r clock g = progressTick clock g"
  using assms by (simp add: fire_def)

lemma racing_tick:
  assumes "racing x g" and "x + 5 / 2 < 100"
  shows "racing (x + 5 / 2) (step (Fire 2 r clock) g)"
proof -
  from assms(1) have f: "fire 2 r clock g = progressTick clock g"
    by (intro fire_progressTick) (simp add: racing_def)
  from assms have t: "tickPlayers (progressToWin g) (progressRate g) clock 0 (players g) =
      ([(''s1'', (createPlayer ''s1'' [0x41])\<lparr>holding := True, progress := x + 5 / 2\<rparr>),
        (''s2'', createPlayer ''s2'' [0x42])], False)"
    by (simp add: racing_def tickPlayer_def createPlayer_def truthy_def Let_def)
  from assms(1) have ph: "phase g = Playing" "light g = Green" by (simp_all add: racing_def)
  have pt: "progressTick clock g =
      broadcastAll (g\<lparr>players := [(''s1'', (createPlayer ''s1'' [0x41])\<lparr>holding := True, progress := x + 5 / 2\<rparr>),
        (''s2'', createPlayer ''s2'' [0x42])]\<rparr>)"
    unfolding progressTick_unfold [OF ph] t by simp
  have "racing (x + 5 / 2) (progressTick clock g)"
    unfolding pt using assms(1) by (simp add: racing_def)
  with f show ?thesis by simp
qed

lemma racing_ticks:
  "racing x g \<Longrightarrow> x + 5 / 2 * real n < 100 \<Longrightarrow>
   racing (x + 5 / 2 * real n) (run (replicate n (Fire 2 r clock)) g)"
proof (induction n arbitrary: x g)
  case 0
  then show ?case by simp
next
  case (Suc n)
  have split: "x + 5 / 2 * real (Suc n) = x + 5 / 2 + 5 / 2 * real n"
    by (simp add: algebra_simps)
  have "0 \<le> 5 / 2 * real n" by simp
  with Suc.prems(2) have small: "x + 5 / 2 < 100" and rest: "x + 5 / 2 + 5 / 2 * real n < 100"
    unfolding split by linarith+
  from Suc.prems(1) small have "racing (x + 5 / 2) (step (Fire 2 r clock) g)"
    by (rule racing_tick)
  from Suc.IH [OF this rest] show ?case unfolding split by simp
qed

lemma racing_finish:
  assumes "racing x g" and "100 \<le> x + 5 / 2"
  shows "players (step (Fire 2 r clock) g) =
     [(''s1'', (createPlayer ''s1'' [0x41])\<lparr>holding := True, progress := 100,
                 finishedAt := Some (clock 0)\<rparr>),
      (''s2'', createPlayer ''s2'' [0x42])]"
proof -
  from assms(1) have f: "fire 2 r clock g = progressTick clock g"
    by (intro fire_progressTick) (simp add: racing_def)
  from assms have "fst (tickPlayers (progressToWin g) (progressRate g) clock 0 (players g)) =
      [(''s1'', (createPlayer ''s1'' [0x41])\<lparr>holding := True, progress := 100,
                 finishedAt := Some (clock 0)\<rparr>),
        (''s2'', createPlayer ''s2'' [0x42])]"
    by (simp add: racing_def tickPlayer_def createPlayer_def truthy_def Let_def)
  with assms(1) f show ?thesis
    by (simp add: players_progressTick racing_def)
qed

lemmas eval_defs = on_joinGame_def on_startGame_def startGame_def fire_def countdownTick_def
  initial_game_def Let_def trim_def is_space_def createPlayer_def emit_def broadcastAll_def
  broadcastGameState_def broadcastToPhones_def getPlayersArray_def view_of_def pristine_def
  emitCountdown_def setInterval_def setTimeout_def clearTimer_def startProgressTracking_def
  switchToGreen_def randomBetween_def on_holdStart_def

lemma green_start_fields:
  "phase green_start = Playing \<and> light green_start = Green \<and>
   progressToWin green_start = 100 \<and> progressRate green_start = 5 / 2 \<and>
   find (\<lambda>t. handle t = 2) (timers green_start) =
     Some \<lparr>handle = 2, callback = CbProgressTick, delay = 100, repeats = True\<rparr> \<and>
   players green_start =
     [(''s1'', createPlayer ''s1'' [0x41]), (''s2'', createPlayer ''s2'' [0x42])]"
  unfolding green_start_def by (simp add: eval_defs)

lemma racing_green_start: "racing 0 (step (HoldStart ''s1'') green_start)"
  using green_start_fields
  by (simp add: racing_def on_holdStart_def createPlayer_def)

lemma reachable_green_start: "reachable green_start"
  unfolding green_start_def
  by (intro reachable_run reachable_init) (simp add: clk_def)

lemma reachable_finish_line: "reachable finish_line"
  unfolding finish_line_def
  by (intro reachable_step reachable_run reachable_green_start) (simp_all add: clk_def)

lemma players_finish_line:
  "players finish_line =
     [(''s1'', (createPlayer ''s1'' [0x41])\<lparr>holding := True, progress := 100,
                 finishedAt := Some 1000\<rparr>),
      (''s2'', createPlayer ''s2'' [0x42])]"
proof -
  have "racing (0 + 5 / 2 * real 39)
          (run (replicate 39 (Fire 2 0 clk)) (step (HoldStart ''s1'') green_start))"
    using racing_green_start by (rule racing_ticks) simp
  from racing_finish [OF this, of 0 clk] show ?thesis
    by (simp add: finish_line_def clk_def)
qed

subsection \<open>The flag that guards the immediate strike\<close>

lemma pending_ok_same:
  "phase g' = phase g \<Longrightarrow> light g' = light g \<Longrightarrow>
   eliminationPending g' = eliminationPending g \<Longrightarrow> pending_ok g \<Longrightarrow> pending_ok g'"
  by (simp add: pending_ok_def)

lemma pending_ok_switchToRed: "pending_ok g \<Longrightarrow> pending_ok (switchToRed g)"
  by (simp add: pending_ok_def switchToRed_def Let_def case_prod_beta setTimeout_def)

lemma pending_ok_switchToGreen: "pending_ok g \<Longrightarrow> pending_ok (switchToGreen r g)"
  by (simp add: pending_ok_def switchToGreen_def Let_def case_prod_beta setTimeout_def)

lemma pending_ok_eliminateHolders: "pending_ok g \<Longrightarrow> pending_ok (eliminateHolders r g)"
  by (simp add: pending_ok_def eliminateHolders_def Let_def case_prod_beta setTimeout_def)

lemma pending_ok_progressTick: "pending_ok g \<Longrightarrow> pending_ok (progressTick clock g)"
  by (simp add: pending_ok_def progressTick_def Let_def case_prod_beta checkForWinner_def)

lemma light_switchToGreen: "phase g = Playing \<Longrightarrow> light (switchToGreen r g) = Green"
  by (simp add: switchToGreen_def Let_def case_prod_beta setTimeout_def)

lemma pending_ok_countdownTick: "pending_ok g \<Longrightarrow> pending_ok (countdownTick h c r g)"
proof (cases "c - 1 > 0")
  case True
  assume "pending_ok g"
  with True show ?thesis
    by (simp add: pending_ok_def countdownTick_def Let_def emitCountdown_def)
next
  case False
  then have "light (countdownTick h c r g) = Green"
    by (simp add: countdownTick_def Let_def light_switchToGreen)
  then show ?thesis by (simp add: pending_ok_def)
qed

lemma pending_ok_fire: "pending_ok g \<Longrightarrow> pending_ok (fire h r clock g)"
proof (cases "find (\<lambda>t. handle t = h) (timers g)")
  case None
  assume "pending_ok g"
  with None show ?thesis by (simp add: fire_def)
next
  case (Some t)
  assume ok: "pending_ok g"
  let ?g1 = "if repeats t then g else g\<lparr>timers := filter (\<lambda>t. handle t \<noteq> h) (timers g)\<rparr>"
  from ok have g1: "pending_ok ?g1" by (simp add: pending_ok_def)
  have e: "fire h r clock g =
      (case callback t of
                CbSwitchToRed \<Rightarrow> switchToRed ?g1
              | CbSwitchToGreen \<Rightarrow> switchToGreen r ?g1
              | CbEliminateHolders \<Rightarrow> eliminateHolders r ?g1
              | CbProgressTick \<Rightarrow> progressTick clock ?g1
              | CbCountdown c \<Rightarrow> countdownTick h c r ?g1)"
    using Some by (simp add: fire_def Let_def)
  show ?thesis
  proof (cases "callback t")
    case CbSwitchToRed
    with g1 show ?thesis unfolding e by (simp add: pending_ok_switchToRed)
  next
    case CbSwitchToGreen
    with g1 show ?thesis unfolding e by (simp add: pending_ok_switchToGreen)
  next
    case CbEliminateHolders
    with g1 show ?thesis unfolding e by (simp add: pending_ok_eliminateHolders)
  next
    case CbProgressTick
    with g1 show ?thesis unfolding e by (simp add: pending_ok_progressTick)
  next
    case (CbCountdown c)
    with g1 show ?thesis unfolding e by (simp add: pending_ok_countdownTick)
  qed
qed

lemma pending_ok_step: "pending_ok g \<Longrightarrow> pending_ok (step e g)"
proof (cases e)
  case (Fire h r clock)
  assume "pending_ok g"
  with Fire show ?thesis by (simp add: pending_ok_fire)
next
  case (StartGame sid)
  assume "pending_ok g"
  then show ?thesis
    by (simp add: StartGame pending_ok_def on_startGame_def startGame_def Let_def
          case_prod_beta setInterval_def emitCountdown_def)
next
  case (ResetGame sid)
  show ?thesis by (simp add: ResetGame pending_ok_def on_resetGame_def resetGame_def Let_def)
next
  case (HoldStart sid)
  assume "pending_ok g"
  moreover have "light (on_holdStart sid g) = light g"
    by (simp add: on_holdStart_def Let_def split: option.splits)
  moreover have "eliminationPending (on_holdStart sid g) = eliminationPending g"
    by (simp add: on_holdStart_def Let_def split: option.splits)
  ultimately show ?thesis
    by (simp add: HoldStart pending_ok_def)
next
  case (HoldEnd sid)
  assume "pending_ok g"
  then show ?thesis
    by (simp add: HoldEnd pending_ok_def on_holdEnd_def split: option.splits)
next
  case (Disconnect sid)
  assume "pending_ok g"
  then show ?thesis
    by (simp add: Disconnect pending_ok_def on_disconnect_def Let_def split: option.splits)
next
  case (JoinTV sid)
  assume "pending_ok g"
  then show ?thesis by (simp add: JoinTV pending_ok_def on_joinTV_def)
next
  case (JoinGame sid nm)
  assume "pending_ok g"
  then show ?thesis by (simp add: JoinGame pending_ok_def on_joinGame_def Let_def)
next
  case (KickPlayer sid k)
  assume "pending_ok g"
  then show ?thesis by (simp add: KickPlayer pending_ok_def on_kickPlayer_def Let_def)
qed

lemma reachable_pending_ok: "reachable g \<Longrightarrow> pending_ok g"
proof (induction rule: reachable.induct)
  case reachable_init
  show ?case by (simp add: pending_ok_def initial_game_def)
next
  case (reachable_step g e)
  then show ?case by (simp add: pending_ok_step)
qed

lemma on_holdStart_no_strike:
  assumes "pending_ok g"
  shows "alive_flags (on_holdStart sid g) = alive_flags g \<and> outbox (on_holdStart sid g) = outbox g"
  using assms
  by (auto simp: pending_ok_def on_holdStart_def Let_def alive_flags_def map_entry_flags
        split: option.splits)

lemma green_start_timers:
  "timers green_start =
     [\<lparr>handle = 2, callback = CbProgressTick, delay = 100, repeats = True\<rparr>,
      \<lparr>handle = 3, callback = CbSwitchToRed, delay = 1500, repeats = False\<rparr>] \<and>
   nextHandle green_start = 4 \<and> gracePeriodMs green_start = 350 \<and>
   redDuration green_start = (2000, 4000)"
  unfolding green_start_def by (simp add: eval_defs)

lemma red_fields:
  "phase (step (Fire 3 0 clk) green_start) = Playing \<and>
   light (step (Fire 3 0 clk) green_start) = Red \<and>
   eliminationPending (step (Fire 3 0 clk) green_start) \<and>
   players (step (Fire 3 0 clk) green_start) = players green_start \<and>
   timers (step (Fire 3 0 clk) green_start) =
     [\<lparr>handle = 2, callback = CbProgressTick, delay = 100, repeats = True\<rparr>,
      \<lparr>handle = 4, callback = CbEliminateHolders, delay = 350, repeats = False\<rparr>] \<and>
   nextHandle (step (Fire 3 0 clk) green_start) = 5 \<and>
   redDuration (step (Fire 3 0 clk) green_start) = (2000, 4000)"
  using green_start_fields green_start_timers
  by (simp add: fire_def switchToRed_def Let_def setTimeout_def broadcastAll_def
        broadcastToPhones_def broadcastGameState_def emit_def)

lemma after_sweep_fields:
  "phase after_sweep = Playing \<and> light after_sweep = Red \<and>
   players after_sweep = players green_start \<and>
   timers after_sweep =
     [\<lparr>handle = 2, callback = CbProgressTick, delay = 100, repeats = True\<rparr>,
      \<lparr>handle = 5, callback = CbSwitchToGreen, delay = 2000, repeats = False\<rparr>]"
proof -
  let ?r = "step (Fire 3 0 clk) green_start"
  let ?r1 = "?r\<lparr>timers := filter (\<lambda>t. handle t \<noteq> 4) (timers ?r)\<rparr>"
  have e: "after_sweep = eliminateHolders 0 ?r1"
    using red_fields by (simp add: after_sweep_def fire_def [of 4])
  have r1: "phase ?r1 = Playing" "light ?r1 = Red"
    "players ?r1 = [(''s1'', createPlayer ''s1'' [0x41]), (''s2'', createPlayer ''s2'' [0x42])]"
    "timers ?r1 = [\<lparr>handle = 2, callback = CbProgressTick, delay = 100, repeats = True\<rparr>]"
    "nextHandle ?r1 = 5" "redDuration ?r1 = (2000, 4000)"
    using red_fields green_start_fields by simp_all
  then have "length (survivors ?r1) \<ge> 2"
    by (simp add: survivors_def createPlayer_def)
  with sweep_survivors [OF r1(1,2), where r = 0] r1
  have "phase (eliminateHolders 0 ?r1) = Playing" "light (eliminateHolders 0 ?r1) = Red"
    "timers (eliminateHolders 0 ?r1) =
       [\<lparr>handle = 2, callback = CbProgressTick, delay = 100, repeats = True\<rparr>,
        \<lparr>handle = 5, callback = CbSwitchToGreen, delay = 2000, repeats = False\<rparr>]"
    by (simp_all add: randomBetween_def)
  moreover have "players (eliminateHolders 0 ?r1) = players green_start"
    using r1 green_start_fields
    by (simp add: eliminateHolders_players sweep_def createPlayer_def)
  ultimately show ?thesis unfolding e by simp
qed

lemma reachable_after_sweep: "reachable after_sweep"
  unfolding after_sweep_def
  by (intro reachable_run reachable_green_start) (simp add: clk_def)

section \<open>The elimination rule\<close>

text \<open>
  Claim C1 says that a begin-hold in phase playing, with the light red and no elimination
  pending, marks the player not alive in that handler. The handler has this branch, but no
  reachable state takes it: \<open>eliminationPending\<close> is set when the light turns red and is
  cleared only when it turns green, and the sweep leaves it set. So whenever the light is
  red in a running match the flag is still set, and in every reachable state a begin-hold
  changes nobody's alive flag and emits nothing, also after the grace period has elapsed.
\<close>

theorem holdStart_never_strikes:
  assumes "reachable g"
  shows "(phase g = Playing \<and> light g = Red \<longrightarrow> eliminationPending g) \<and>
         alive_flags (step (HoldStart sid) g) = alive_flags g \<and>
         emitted g (step (HoldStart sid) g) = []"
proof -
  from assms have ok: "pending_ok g" by (rule reachable_pending_ok)
  from on_holdStart_no_strike [OF ok, of sid] ok show ?thesis
    by (simp add: pending_ok_def emitted_def)
qed

theorem holdStart_never_strikes_witness:
  "reachable after_sweep \<and> phase after_sweep = Playing \<and> light after_sweep = Red \<and>
   find (\<lambda>t. callback t = CbEliminateHolders) (timers after_sweep) = None \<and>
   alive_flags (step (HoldStart ''s1'') after_sweep) = [(''s1'', True), (''s2'', True)] \<and>
   map_of (players (step (HoldStart ''s1'') after_sweep)) ''s1'' =
     Some ((createPlayer ''s1'' [0x41])\<lparr>holding := True\<rparr>) \<and>
   emitted after_sweep (step (HoldStart ''s1'') after_sweep) = []"
proof -
  have fl: "alive_flags after_sweep = [(''s1'', True), (''s2'', True)]"
    using after_sweep_fields green_start_fields by (simp add: alive_flags_def createPlayer_def)
  from holdStart_never_strikes [OF reachable_after_sweep, of "''s1''"]
  have pend: "eliminationPending after_sweep"
    and flags: "alive_flags (step (HoldStart ''s1'') after_sweep) = alive_flags after_sweep"
    and quiet: "emitted after_sweep (step (HoldStart ''s1'') after_sweep) = []"
    using after_sweep_fields by simp_all
  have hold: "map_of (players (step (HoldStart ''s1'') after_sweep)) ''s1'' =
     Some ((createPlayer ''s1'' [0x41])\<lparr>holding := True\<rparr>)"
    using after_sweep_fields green_start_fields pend
    by (simp add: on_holdStart_def createPlayer_def)
  from reachable_after_sweep after_sweep_fields fl flags quiet hold show ?thesis by simp
qed

text \<open>
  Claim C2. Inside the grace window (phase playing, light red, elimination pending) a
  begin-hold changes nobody's alive flag, and neither does any further sequence of begin-hold
  and end-hold events, which also leave the window open. The sweep that closes the window
  then leaves alive exactly the players that were alive and not holding when it fired.
\<close>

theorem holdStart_grace_survives:
  assumes "phase g = Playing" and "light g = Red" and "eliminationPending g"
    and "\<forall>e \<in> set es. is_hold e"
    and "g' = run (HoldStart sid # es) g"
  shows "alive_flags (step (HoldStart sid) g) = alive_flags g \<and>
         alive_flags g' = alive_flags g \<and>
         phase g' = Playing \<and> light g' = Red \<and> eliminationPending g' \<and>
         (\<forall>k q. map_of (players g') k = Some q \<longrightarrow>
            (\<exists>q'. map_of (players (eliminateHolders r g')) k = Some q' \<and>
                  (alive q' \<longleftrightarrow> alive q \<and> \<not> holding q)))"
proof -
  have a: "alive_flags (step (HoldStart sid) g) = alive_flags g"
    using hold_in_window [of g "HoldStart sid"] assms(1-3) by simp
  have b: "phase g' = Playing \<and> light g' = Red \<and> eliminationPending g' \<and>
           alive_flags g' = alive_flags g"
    using holds_in_window [of "HoldStart sid # es" g] assms by simp
  have c: "\<forall>k q. map_of (players g') k = Some q \<longrightarrow>
            (\<exists>q'. map_of (players (eliminateHolders r g')) k = Some q' \<and>
                  (alive q' \<longleftrightarrow> alive q \<and> \<not> holding q))"
    using b by (auto simp: eliminateHolders_players map_of_map_snd sweep_alive)
  from a b c show ?thesis by simp
qed

theorem holdStart_grace_survives_witness:
  "alive_flags (run [HoldStart ''s1'', HoldEnd ''s1''] (match_at Red True)) =
     [(''s1'', True), (''s2'', True), (''s3'', True)] \<and>
   (\<exists>q'. map_of (players (eliminateHolders 0
            (run [HoldStart ''s1'', HoldEnd ''s1''] (match_at Red True)))) ''s1'' = Some q' \<and> alive q') \<and>
   (\<exists>q'. map_of (players (eliminateHolders 0
            (run [HoldStart ''s1'', HoldEnd ''s1''] (match_at Red True)))) ''s2'' = Some q' \<and> \<not> alive q')"
proof -
  let ?g = "match_at Red True" and ?es = "[HoldEnd ''s1'']"
  let ?g' = "run (HoldStart ''s1'' # ?es) ?g"
  have h1: "phase ?g = Playing" by (simp add: match_at_def)
  have h2: "light ?g = Red" by (simp add: match_at_def)
  have h3: "eliminationPending ?g" by (simp add: match_at_def)
  have h4: "\<forall>e \<in> set ?es. is_hold e" by simp
  have fl: "alive_flags ?g = [(''s1'', True), (''s2'', True), (''s3'', True)]"
    by (simp add: alive_flags_def match_at_def ann_def bob_def cy_def createPlayer_def)
  have s1: "map_of (players ?g') ''s1'' = Some (ann\<lparr>holding := False\<rparr>)"
    and s2: "map_of (players ?g') ''s2'' = Some bob"
    by (simp_all add: run_def on_holdStart_def on_holdEnd_def match_at_def ann_def
          createPlayer_def Let_def)
  have fields: "alive (ann\<lparr>holding := False\<rparr>)" "\<not> holding (ann\<lparr>holding := False\<rparr>)"
    "alive bob" "holding bob"
    by (simp_all add: ann_def bob_def createPlayer_def)
  from holdStart_grace_survives [OF h1 h2 h3 h4 refl, of "''s1''" 0]
  have flags: "alive_flags ?g' = alive_flags ?g"
    and sweep: "\<forall>k q. map_of (players ?g') k = Some q \<longrightarrow>
            (\<exists>q'. map_of (players (eliminateHolders 0 ?g')) k = Some q' \<and>
                  (alive q' \<longleftrightarrow> alive q \<and> \<not> holding q))"
    by blast+
  from sweep s1 fields have a: "\<exists>q'. map_of (players (eliminateHolders 0 ?g')) ''s1'' = Some q' \<and> alive q'"
    by blast
  from sweep s2 fields have b: "\<exists>q'. map_of (players (eliminateHolders 0 ?g')) ''s2'' = Some q' \<and> \<not> alive q'"
    by blast
  from flags fl a b show ?thesis by simp
qed

section \<open>Progress\<close>

text \<open>
  Claim C3. From any reachable state, along any sequence of events other than join, start
  and reset (so begin-hold, end-hold and progress ticks, and also light switches, sweeps,
  disconnects and removals), every player still registered at the end was registered at the
  start, has at least the progress it had, and at most the win threshold. One progress
  tick adds the progress rate, clamped at the threshold, to exactly the players that are
  alive, holding and not finished, and only in phase playing with the light green; every
  other player keeps its progress.
\<close>

theorem progress_monotone_bounded:
  assumes "reachable g" and "\<forall>e \<in> set es. in_match e"
  shows "(\<forall>k p'. map_of (players (run es g)) k = Some p' \<longrightarrow>
            (\<exists>p. map_of (players g) k = Some p \<and> progress p \<le> progress p' \<and>
                 progress p' \<le> progressToWin (run es g))) \<and>
         (\<forall>k p. map_of (players g) k = Some p \<longrightarrow>
            (\<exists>p'. map_of (players (progressTick clock g)) k = Some p' \<and>
                  progress p' =
                    (if phase g = Playing \<and> light g = Green \<and>
                        alive p \<and> holding p \<and> \<not> truthy (finishedAt p)
                     then min (progressToWin g) (progress p + progressRate g)
                     else progress p)))"
proof -
  from assms(1) have ok: "progress_ok g" by (rule reachable_progress_ok)
  from run_progress [OF assms(2) ok]
  have ok': "progress_ok (run es g)" and le: "reg_le (players g) (players (run es g))"
    by simp_all
  have a: "\<forall>k p'. map_of (players (run es g)) k = Some p' \<longrightarrow>
            (\<exists>p. map_of (players g) k = Some p \<and> progress p \<le> progress p' \<and>
                 progress p' \<le> progressToWin (run es g))"
  proof (intro allI impI)
    fix k p' assume p': "map_of (players (run es g)) k = Some p'"
    then have "(k, p') \<in> set (players (run es g))" by (rule map_of_SomeD)
    with ok' have "progress p' \<le> progressToWin (run es g)"
      by (auto simp: progress_ok_def)
    moreover from le p' obtain p where "map_of (players g) k = Some p" "progress p \<le> progress p'"
      by (auto simp: reg_le_def)
    ultimately show "\<exists>p. map_of (players g) k = Some p \<and> progress p \<le> progress p' \<and>
                 progress p' \<le> progressToWin (run es g)" by blast
  qed
  have b: "\<forall>k p. map_of (players g) k = Some p \<longrightarrow>
            (\<exists>p'. map_of (players (progressTick clock g)) k = Some p' \<and>
                  progress p' =
                    (if phase g = Playing \<and> light g = Green \<and>
                        alive p \<and> holding p \<and> \<not> truthy (finishedAt p)
                     then min (progressToWin g) (progress p + progressRate g)
                     else progress p))"
  proof (intro allI impI)
    fix k p assume p: "map_of (players g) k = Some p"
    from map_of_tickPlayers [OF p, of "progressToWin g" "progressRate g" clock 0]
    obtain n where "map_of (fst (tickPlayers (progressToWin g) (progressRate g) clock 0 (players g))) k
        = Some (fst (tickPlayer (progressToWin g) (progressRate g) n p))" by blast
    with p show "\<exists>p'. map_of (players (progressTick clock g)) k = Some p' \<and>
                  progress p' =
                    (if phase g = Playing \<and> light g = Green \<and>
                        alive p \<and> holding p \<and> \<not> truthy (finishedAt p)
                     then min (progressToWin g) (progress p + progressRate g)
                     else progress p)"
      by (simp add: players_progressTick_any tickPlayer_progress)
  qed
  from a b show ?thesis by blast
qed

theorem progress_monotone_bounded_witness:
  "(\<exists>p p'. map_of (players (step (HoldStart ''s1'') green_start)) ''s1'' = Some p \<and>
      map_of (players (run [Fire 2 0 clk] (step (HoldStart ''s1'') green_start))) ''s1'' = Some p' \<and>
      progress p = 0 \<and> progress p' = 5 / 2 \<and>
      progress p' \<le> progressToWin (run [Fire 2 0 clk] (step (HoldStart ''s1'') green_start))) \<and>
   (\<exists>p'. map_of (players (progressTick clk (step (HoldStart ''s1'') green_start))) ''s1'' = Some p' \<and>
      progress p' = 5 / 2) \<and>
   (\<exists>p'. map_of (players (progressTick clk (step (HoldStart ''s1'') green_start))) ''s2'' = Some p' \<and>
      progress p' = 0)"
proof -
  let ?g = "step (HoldStart ''s1'') green_start"
  let ?es = "[Fire 2 0 clk]"
  let ?a = "(createPlayer ''s1'' [0x41])\<lparr>holding := True, progress := 0\<rparr>"
  let ?b = "createPlayer ''s2'' [0x42]"
  have reach: "reachable ?g" using reachable_green_start by (rule reachable_step) simp
  have inm: "\<forall>e \<in> set ?es. in_match e" by simp
  from racing_green_start
  have g: "phase ?g = Playing" "light ?g = Green" "progressToWin ?g = 100"
    "progressRate ?g = 5 / 2" "map_of (players ?g) ''s1'' = Some ?a"
    "map_of (players ?g) ''s2'' = Some ?b"
    by (simp_all add: racing_def)
  have fa: "alive ?a" "holding ?a" "\<not> truthy (finishedAt ?a)" "progress ?a = 0"
    and fb: "\<not> holding ?b" "progress ?b = 0"
    by (simp_all add: createPlayer_def truthy_def)
  have "racing (0 + 5 / 2) (step (Fire 2 0 clk) ?g)"
    using racing_green_start by (rule racing_tick) simp
  then have after: "map_of (players (run ?es ?g)) ''s1'' =
      Some ((createPlayer ''s1'' [0x41])\<lparr>holding := True, progress := 5 / 2\<rparr>)"
    by (simp add: racing_def)
  from progress_monotone_bounded [OF reach inm, of clk]
  have mono: "\<forall>k p'. map_of (players (run ?es ?g)) k = Some p' \<longrightarrow>
            (\<exists>p. map_of (players ?g) k = Some p \<and> progress p \<le> progress p' \<and>
                 progress p' \<le> progressToWin (run ?es ?g))"
    and tick: "\<forall>k p. map_of (players ?g) k = Some p \<longrightarrow>
            (\<exists>p'. map_of (players (progressTick clk ?g)) k = Some p' \<and>
                  progress p' =
                    (if phase ?g = Playing \<and> light ?g = Green \<and>
                        alive p \<and> holding p \<and> \<not> truthy (finishedAt p)
                     then min (progressToWin ?g) (progress p + progressRate ?g)
                     else progress p))"
    by blast+
  from mono after have "5 / 2 \<le> progressToWin (run ?es ?g)" by fastforce
  with g(5) fa(4) after have one: "\<exists>p p'. map_of (players ?g) ''s1'' = Some p \<and>
      map_of (players (run ?es ?g)) ''s1'' = Some p' \<and>
      progress p = 0 \<and> progress p' = 5 / 2 \<and> progress p' \<le> progressToWin (run ?es ?g)"
    by simp
  from tick g(5) obtain p' where "map_of (players (progressTick clk ?g)) ''s1'' = Some p'"
    and "progress p' =
           (if phase ?g = Playing \<and> light ?g = Green \<and>
               alive ?a \<and> holding ?a \<and> \<not> truthy (finishedAt ?a)
            then min (progressToWin ?g) (progress ?a + progressRate ?g)
            else progress ?a)"
    by blast
  with g(1-4) fa have two: "\<exists>p'. map_of (players (progressTick clk ?g)) ''s1'' = Some p' \<and>
      progress p' = 5 / 2"
    by simp
  from tick g(6) obtain q' where "map_of (players (progressTick clk ?g)) ''s2'' = Some q'"
    and "progress q' =
           (if phase ?g = Playing \<and> light ?g = Green \<and>
               alive ?b \<and> holding ?b \<and> \<not> truthy (finishedAt ?b)
            then min (progressToWin ?g) (progress ?b + progressRate ?g)
            else progress ?b)"
    by blast
  with fb have three: "\<exists>p'. map_of (players (progressTick clk ?g)) ''s2'' = Some p' \<and>
      progress p' = 0"
    by simp
  from one two three show ?thesis by blast
qed

section \<open>The grace-period sweep\<close>

text \<open>
  Claim C4. When the sweep fires in phase playing with the light red, the players alive
  afterwards are exactly those that were alive and not holding; nobody joins or leaves the
  registry. If no player is left alive the match ends and no winner is announced; if exactly
  one is left, the match ends and that player is announced as winner; if two or more are
  left, the match goes on, nothing is announced, and a timeout that will call switchToGreen
  is armed and stored in lightTimer.
\<close>

theorem sweep_outcome:
  assumes "phase g = Playing" and "light g = Red"
  shows "map fst (players (eliminateHolders r g)) = map fst (players g) \<and>
         (\<forall>k p. map_of (players g) k = Some p \<longrightarrow>
            (\<exists>p'. map_of (players (eliminateHolders r g)) k = Some p' \<and>
                  (alive p' \<longleftrightarrow> alive p \<and> \<not> holding p))) \<and>
         (survivors g = [] \<longrightarrow>
           phase (eliminateHolders r g) = GameOver \<and> announced g (eliminateHolders r g) = [None]) \<and>
         (survivors g = [w] \<longrightarrow>
           phase (eliminateHolders r g) = GameOver \<and>
           announced g (eliminateHolders r g) = [Some (player_id w, name w)]) \<and>
         (length (survivors g) \<ge> 2 \<longrightarrow>
           phase (eliminateHolders r g) = Playing \<and> light (eliminateHolders r g) = Red \<and>
           announced g (eliminateHolders r g) = [] \<and>
           timers (eliminateHolders r g) =
             timers g @ [\<lparr>handle = nextHandle g, callback = CbSwitchToGreen,
                          delay = randomBetween r (redDuration g), repeats = False\<rparr>] \<and>
           lightTimer (eliminateHolders r g) = Some (nextHandle g))"
proof -
  have "map fst (players (eliminateHolders r g)) = map fst (players g)"
    by (simp add: eliminateHolders_players)
  moreover have "\<forall>k p. map_of (players g) k = Some p \<longrightarrow>
            (\<exists>p'. map_of (players (eliminateHolders r g)) k = Some p' \<and>
                  (alive p' \<longleftrightarrow> alive p \<and> \<not> holding p))"
    using assms by (simp add: eliminateHolders_players map_of_map_snd sweep_alive)
  ultimately show ?thesis
    using sweep_survivors [OF assms, where w = w and r = r] by simp
qed

theorem sweep_outcome_witness:
  "(\<exists>p'. map_of (players (eliminateHolders 0 (match_at Red True))) ''s2'' = Some p' \<and>
      \<not> alive p') \<and>
   (\<exists>p'. map_of (players (eliminateHolders 0 (match_at Red True))) ''s3'' = Some p' \<and>
      alive p') \<and>
   phase (eliminateHolders 0 (match_at Red True)) = Playing \<and>
   lightTimer (eliminateHolders 0 (match_at Red True)) = Some 1 \<and>
   timers (eliminateHolders 0 (match_at Red True)) =
     [\<lparr>handle = 1, callback = CbSwitchToGreen, delay = 2000, repeats = False\<rparr>] \<and>
   announced (step (Disconnect ''s3'') (match_at Red True))
     (eliminateHolders 0 (step (Disconnect ''s3'') (match_at Red True))) = [Some (''s1'', [0x41])] \<and>
   announced (run [Disconnect ''s3'', HoldStart ''s1''] (match_at Red True))
     (eliminateHolders 0 (run [Disconnect ''s3'', HoldStart ''s1''] (match_at Red True))) = [None]"
proof -
  let ?a = "match_at Red True"
  let ?b = "step (Disconnect ''s3'') ?a"
  let ?c = "run [Disconnect ''s3'', HoldStart ''s1''] ?a"
  have a: "phase ?a = Playing" "light ?a = Red" "length (survivors ?a) \<ge> 2"
    "timers ?a = []" "nextHandle ?a = 1" "randomBetween 0 (redDuration ?a) = 2000"
    by (simp_all add: match_at_def initial_game_def survivors_def ann_def bob_def cy_def
          createPlayer_def randomBetween_def)
  have b: "phase ?b = Playing" "light ?b = Red" "survivors ?b = [ann]"
    "player_id ann = ''s1''" "name ann = [0x41]"
    by (simp_all add: match_at_def initial_game_def survivors_def ann_def bob_def cy_def
          createPlayer_def on_disconnect_def Let_def)
  have c: "phase ?c = Playing" "light ?c = Red" "survivors ?c = []"
    by (simp_all add: match_at_def initial_game_def survivors_def ann_def bob_def cy_def
          createPlayer_def on_disconnect_def on_holdStart_def run_def Let_def)
  have m: "map_of (players ?a) ''s2'' = Some bob" "map_of (players ?a) ''s3'' = Some cy"
    "alive bob" "holding bob" "alive cy" "\<not> holding cy"
    by (simp_all add: match_at_def bob_def cy_def createPlayer_def)
  from sweep_outcome [OF a(1,2), where r = 0]
  have every: "\<forall>k p. map_of (players ?a) k = Some p \<longrightarrow>
            (\<exists>p'. map_of (players (eliminateHolders 0 ?a)) k = Some p' \<and>
                  (alive p' \<longleftrightarrow> alive p \<and> \<not> holding p))"
    by blast
  from every m(1,3,4) have dead: "\<exists>p'. map_of (players (eliminateHolders 0 ?a)) ''s2'' = Some p' \<and>
      \<not> alive p'" by blast
  from every m(2,5,6) have live: "\<exists>p'. map_of (players (eliminateHolders 0 ?a)) ''s3'' = Some p' \<and>
      alive p'" by blast
  from sweep_outcome [OF a(1,2), where r = 0] a(3-)
    sweep_outcome [OF b(1,2), where r = 0 and w = ann] b(3-)
    sweep_outcome [OF c(1,2), where r = 0] c(3) dead live
  show ?thesis by simp
qed

section \<open>Winner resolution\<close>



section \<open>Events of a dead player\<close>

text \<open>
  Claim C6, as the spec has it: whenever a player is marked not alive (sweep, immediate
  strike or disconnect) the holding flag is forced false, and later begin-hold and end-hold
  events of that player change nothing. The sweep does not touch \<open>holding\<close>: after it
  \<open>bob\<close> is dead and still holding, and his end-hold then changes the state.
\<close>

theorem dead_holder_counterexample:
  "map_of (players (eliminateHolders 0 (match_at Red True))) ''s2'' =
     Some (bob\<lparr>alive := False, eliminated := True\<rparr>) \<and>
   holding (bob\<lparr>alive := False, eliminated := True\<rparr>) \<and>
   step (HoldEnd ''s2'') (eliminateHolders 0 (match_at Red True)) \<noteq>
     eliminateHolders 0 (match_at Red True)"
proof -
  let ?g = "eliminateHolders 0 (match_at Red True)"
  have ps: "players ?g = [(''s1'', ann), (''s2'', bob\<lparr>alive := False, eliminated := True\<rparr>), (''s3'', cy)]"
    by (simp add: eliminateHolders_players match_at_def sweep_def ann_def bob_def cy_def
          createPlayer_def)
  have "players (step (HoldEnd ''s2'') ?g) \<noteq> players ?g"
    by (simp add: on_holdEnd_players ps bob_def createPlayer_def)
  then have "step (HoldEnd ''s2'') ?g \<noteq> ?g" by auto
  then show ?thesis by (simp add: ps bob_def createPlayer_def)
qed

text \<open>
  Claim C6, amended. A disconnect outside the lobby leaves the player not alive and not
  holding. The sweep and the immediate strike leave the player not alive with the holding
  flag still true. For a registered player that is not alive, a begin-hold returns the state
  unchanged (nothing is emitted), and an end-hold emits nothing and changes nothing but
  that player's holding flag, which becomes false.
\<close>

theorem dead_player_events:
  "(phase g \<noteq> Lobby \<longrightarrow> map_of (players g) sid = Some p \<longrightarrow>
      (\<exists>p'. map_of (players (step (Disconnect sid) g)) sid = Some p' \<and>
            \<not> alive p' \<and> \<not> holding p')) \<and>
   (phase g = Playing \<longrightarrow> light g = Red \<longrightarrow> map_of (players g) sid = Some p \<longrightarrow>
    alive p \<longrightarrow> holding p \<longrightarrow>
      (\<exists>p'. map_of (players (eliminateHolders r g)) sid = Some p' \<and> \<not> alive p' \<and> holding p')) \<and>
   (phase g = Playing \<longrightarrow> light g = Red \<longrightarrow> \<not> eliminationPending g \<longrightarrow>
    map_of (players g) sid = Some p \<longrightarrow> alive p \<longrightarrow>
      (\<exists>p'. map_of (players (step (HoldStart sid) g)) sid = Some p' \<and> \<not> alive p' \<and> holding p')) \<and>
   (map_of (players g) sid = Some p \<longrightarrow> \<not> alive p \<longrightarrow>
      step (HoldStart sid) g = g \<and>
      (\<exists>ps. step (HoldEnd sid) g = g\<lparr>players := ps\<rparr> \<and>
            map fst ps = map fst (players g) \<and>
            map_of ps sid = Some (p\<lparr>holding := False\<rparr>) \<and>
            (\<forall>k. k \<noteq> sid \<longrightarrow> map_of ps k = map_of (players g) k)))"
proof -
  have a: "phase g \<noteq> Lobby \<longrightarrow> map_of (players g) sid = Some p \<longrightarrow>
      (\<exists>p'. map_of (players (step (Disconnect sid) g)) sid = Some p' \<and>
            \<not> alive p' \<and> \<not> holding p')"
    by (simp add: on_disconnect_def Let_def AList.map_of_map_entry)
  have b: "phase g = Playing \<longrightarrow> light g = Red \<longrightarrow> map_of (players g) sid = Some p \<longrightarrow>
    alive p \<longrightarrow> holding p \<longrightarrow>
      (\<exists>p'. map_of (players (eliminateHolders r g)) sid = Some p' \<and> \<not> alive p' \<and> holding p')"
    by (simp add: eliminateHolders_players map_of_map_snd sweep_alive sweep_holding)
  have c: "phase g = Playing \<longrightarrow> light g = Red \<longrightarrow> \<not> eliminationPending g \<longrightarrow>
    map_of (players g) sid = Some p \<longrightarrow> alive p \<longrightarrow>
      (\<exists>p'. map_of (players (step (HoldStart sid) g)) sid = Some p' \<and> \<not> alive p' \<and> holding p')"
    by (simp add: on_holdStart_def Let_def AList.map_of_map_entry)
  have d: "map_of (players g) sid = Some p \<longrightarrow> \<not> alive p \<longrightarrow> step (HoldStart sid) g = g"
    by (simp add: on_holdStart_dead)
  have e: "map_of (players g) sid = Some p \<longrightarrow>
      (\<exists>ps. step (HoldEnd sid) g = g\<lparr>players := ps\<rparr> \<and>
            map fst ps = map fst (players g) \<and>
            map_of ps sid = Some (p\<lparr>holding := False\<rparr>) \<and>
            (\<forall>k. k \<noteq> sid \<longrightarrow> map_of ps k = map_of (players g) k))"
  proof
    assume "map_of (players g) sid = Some p"
    then show "\<exists>ps. step (HoldEnd sid) g = g\<lparr>players := ps\<rparr> \<and>
            map fst ps = map fst (players g) \<and>
            map_of ps sid = Some (p\<lparr>holding := False\<rparr>) \<and>
            (\<forall>k. k \<noteq> sid \<longrightarrow> map_of ps k = map_of (players g) k)"
      by (intro exI [of _ "AList.map_entry sid (\<lambda>q. q\<lparr>holding := False\<rparr>) (players g)"])
         (simp add: on_holdEnd_eq AList.map_of_map_entry)
  qed
  from a b c d e show ?thesis by blast
qed

theorem dead_player_events_witness:
  "(\<exists>p'. map_of (players (step (Disconnect ''s2'') (match_at Red False))) ''s2'' = Some p' \<and>
         \<not> alive p' \<and> \<not> holding p') \<and>
   (\<exists>p'. map_of (players (eliminateHolders 0 (match_at Red False))) ''s2'' = Some p' \<and>
         \<not> alive p' \<and> holding p') \<and>
   (\<exists>p'. map_of (players (step (HoldStart ''s2'') (match_at Red False))) ''s2'' = Some p' \<and>
         \<not> alive p' \<and> holding p') \<and>
   step (HoldStart ''s2'') (step (Disconnect ''s2'') (match_at Red False)) =
     step (Disconnect ''s2'') (match_at Red False) \<and>
   (\<exists>ps. step (HoldEnd ''s2'') (step (Disconnect ''s2'') (match_at Red False)) =
           (step (Disconnect ''s2'') (match_at Red False))\<lparr>players := ps\<rparr> \<and>
         map fst ps = map fst (players (step (Disconnect ''s2'') (match_at Red False))))"
proof -
  let ?g = "match_at Red False"
  have h: "phase ?g \<noteq> Lobby" "phase ?g = Playing" "light ?g = Red" "\<not> eliminationPending ?g"
    "map_of (players ?g) ''s2'' = Some bob" "alive bob" "holding bob"
    by (simp_all add: match_at_def bob_def createPlayer_def)
  let ?d = "step (Disconnect ''s2'') ?g"
  have dead: "map_of (players ?d) ''s2'' = Some (bob\<lparr>alive := False, holding := False\<rparr>)"
    "\<not> alive (bob\<lparr>alive := False, holding := False\<rparr>)"
    using h by (simp_all add: on_disconnect_def Let_def AList.map_of_map_entry)
  from dead_player_events [of ?g "''s2''" bob 0] h
    dead_player_events [of ?d "''s2''" "bob\<lparr>alive := False, holding := False\<rparr>" 0] dead
  show ?thesis by blast
qed

section \<open>Joining twice\<close>

text \<open>
  Claim C7, as the spec has it: in the lobby a join whose id is already registered fails with
  DuplicateId and leaves the registry unchanged. The handler has no such check: a socket
  that joined as "A" and joins again as "B" is told that it joined, and its entry is
  replaced.
\<close>

theorem duplicate_join_counterexample:
  "phase lobby_with_ann = Lobby \<and>
   players lobby_with_ann = [(''s1'', createPlayer ''s1'' [0x41])] \<and>
   players (step (JoinGame ''s1'' [0x42]) lobby_with_ann) = [(''s1'', createPlayer ''s1'' [0x42])] \<and>
   players (step (JoinGame ''s1'' [0x42]) lobby_with_ann) \<noteq> players lobby_with_ann \<and>
   emitted lobby_with_ann (step (JoinGame ''s1'' [0x42]) lobby_with_ann) =
     [(To ''s1'', MsgJoined ''s1'' [0x42]), (Room_tv, MsgPlayerJoined ''s1'' [0x42]),
      (Room_tv, MsgGameState Lobby Red [view_of (createPlayer ''s1'' [0x42])] 0)]"
  by (simp add: lobby_with_ann_def initial_game_def ann_def on_joinGame_def Let_def trim_def
        is_space_def emitted_def emit_def broadcastGameState_def getPlayersArray_def
        createPlayer_def)

text \<open>
  Claim C7, amended. In the lobby, for a join whose id is already registered: if the name is
  empty after trimming, the join is refused with a joinError and the registry is unchanged;
  otherwise the join succeeds and the entry of that id is replaced, where it stands, by a
  newly created player (the trimmed name cut to 15 code units, progress 0, alive, not
  holding, finishedAt null). No entry is added and no other player is modified.
\<close>

theorem duplicate_join_replaces:
  assumes "phase g = Lobby" and "map_of (players g) sid = Some p"
  shows "(length (trim nm) = 0 \<longrightarrow>
            players (step (JoinGame sid nm) g) = players g \<and>
            emitted g (step (JoinGame sid nm) g) = [(To sid, MsgJoinError ''Please enter a name!'')]) \<and>
         (length (trim nm) \<noteq> 0 \<longrightarrow>
            map fst (players (step (JoinGame sid nm) g)) = map fst (players g) \<and>
            map_of (players (step (JoinGame sid nm) g)) sid =
              Some \<lparr>player_id = sid, name = take 15 (trim nm), progress = 0, alive = True,
                    holding = False, eliminated = False, finishedAt = None\<rparr> \<and>
            (\<forall>k. k \<noteq> sid \<longrightarrow>
               map_of (players (step (JoinGame sid nm) g)) k = map_of (players g) k) \<and>
            (\<exists>v. emitted g (step (JoinGame sid nm) g) =
               [(To sid, MsgJoined sid (take 15 (trim nm))),
                (Room_tv, MsgPlayerJoined sid (take 15 (trim nm))),
                (Room_tv, MsgGameState Lobby (light g) v (round_num g))]))"
proof (cases "length (trim nm) = 0")
  case True
  with assms show ?thesis
    by (simp add: on_joinGame_def emitted_def)
next
  case False
  then have nm: "nm \<noteq> []" by auto
  let ?q = "createPlayer sid (trim nm)"
  let ?g1 = "g\<lparr>players := AList.update sid ?q (players g)\<rparr>"
  have ps: "players (on_joinGame sid nm g) = AList.update sid ?q (players g)"
    using assms False nm by (simp add: on_joinGame_def Let_def)
  have out: "outbox (on_joinGame sid nm g) =
      outbox g @ [(To sid, MsgJoined sid (take 15 (trim nm))),
                (Room_tv, MsgPlayerJoined sid (take 15 (trim nm))),
                (Room_tv, MsgGameState Lobby (light g) (getPlayersArray ?g1) (round_num g))]"
    using assms False nm
    by (simp add: on_joinGame_def Let_def outbox_broadcastGameState createPlayer_def
          getPlayersArray_def)
  have q: "?q = \<lparr>player_id = sid, name = take 15 (trim nm), progress = 0, alive = True,
                    holding = False, eliminated = False, finishedAt = None\<rparr>"
    by (simp add: createPlayer_def)
  show ?thesis
    using False
    by (simp add: ps map_fst_update_present [OF assms(2)] map_of_update_self
        map_of_update_other emitted_append [OF out] q)
qed

theorem duplicate_join_replaces_witness:
  "map fst (players (step (JoinGame ''s1'' [0x20, 0x42, 0x20]) lobby_with_ann)) = [''s1''] \<and>
   map_of (players (step (JoinGame ''s1'' [0x20, 0x42, 0x20]) lobby_with_ann)) ''s1'' =
     Some \<lparr>player_id = ''s1'', name = [0x42], progress = 0, alive = True,
           holding = False, eliminated = False, finishedAt = None\<rparr> \<and>
   emitted lobby_with_ann (step (JoinGame ''s1'' [0x20] ) lobby_with_ann) =
     [(To ''s1'', MsgJoinError ''Please enter a name!'')]"
proof -
  have h1: "phase lobby_with_ann = Lobby" by (simp add: lobby_with_ann_def initial_game_def)
  have h2: "map_of (players lobby_with_ann) ''s1'' = Some ann" by (simp add: lobby_with_ann_def)
  have t1: "trim [0x20, 0x42, 0x20] = [0x42]" by (simp add: trim_def is_space_def)
  have t2: "trim [0x20] = []" by (simp add: trim_def is_space_def)
  have k: "map fst (players lobby_with_ann) = [''s1'']" by (simp add: lobby_with_ann_def)
  from duplicate_join_replaces [OF h1 h2, of "[0x20, 0x42, 0x20]"]
    duplicate_join_replaces [OF h1 h2, of "[0x20]"] t1 t2 k
  show ?thesis by simp
qed

section \<open>Resetting\<close>

text \<open>
  Claim C8. From any state, the reset command leaves the phase at lobby and the round counter
  at 0; the registry keeps its keys in their order, and every registered player keeps id and
  name and has progress 0, alive true, holding false and finishedAt null.
\<close>

theorem resetGame_restores:
  "phase (step (ResetGame sid) g) = Lobby \<and>
   round_num (step (ResetGame sid) g) = 0 \<and>
   map fst (players (step (ResetGame sid) g)) = map fst (players g) \<and>
   (\<forall>k p. map_of (players g) k = Some p \<longrightarrow>
      (\<exists>p'. map_of (players (step (ResetGame sid) g)) k = Some p' \<and>
            player_id p' = player_id p \<and> name p' = name p \<and>
            progress p' = 0 \<and> alive p' \<and> \<not> holding p' \<and> finishedAt p' = None))"
proof -
  have "phase (resetGame g) = Lobby" "round_num (resetGame g) = 0"
    by (simp_all add: resetGame_def Let_def)
  moreover have "map fst (players (resetGame g)) = map fst (players g)"
    by (simp add: resetGame_players)
  moreover have "\<forall>k p. map_of (players g) k = Some p \<longrightarrow>
      (\<exists>p'. map_of (players (resetGame g)) k = Some p' \<and>
            player_id p' = player_id p \<and> name p' = name p \<and>
            progress p' = 0 \<and> alive p' \<and> \<not> holding p' \<and> finishedAt p' = None)"
    by (simp add: resetGame_players map_of_map_snd pristine_fields)
  ultimately show ?thesis by (simp add: on_resetGame_def)
qed

theorem resetGame_restores_witness:
  "phase (step (ResetGame ''tv'') (match_at Green False)) = Lobby \<and>
   (\<exists>p'. map_of (players (step (ResetGame ''tv'') (match_at Green False))) ''s2'' = Some p' \<and>
      player_id p' = ''s2'' \<and> name p' = [0x42] \<and>
      progress p' = 0 \<and> alive p' \<and> \<not> holding p' \<and> finishedAt p' = None)"
proof -
  let ?g' = "step (ResetGame ''tv'') (match_at Green False)"
  have b: "map_of (players (match_at Green False)) ''s2'' = Some bob"
    by (simp add: match_at_def)
  from resetGame_restores [of "''tv''" "match_at Green False"]
  have ph: "phase ?g' = Lobby"
    and every: "\<forall>k p. map_of (players (match_at Green False)) k = Some p \<longrightarrow>
      (\<exists>p'. map_of (players ?g') k = Some p' \<and>
            player_id p' = player_id p \<and> name p' = name p \<and>
            progress p' = 0 \<and> alive p' \<and> \<not> holding p' \<and> finishedAt p' = None)"
    by blast+
  from every b obtain p' where "map_of (players ?g') ''s2'' = Some p'"
    and "player_id p' = player_id bob" and "name p' = name bob"
    and "progress p' = 0" and "alive p'" and "\<not> holding p'" and "finishedAt p' = None"
    by blast
  with ph show ?thesis by (auto simp: bob_def createPlayer_def)
qed

section \<open>Finishing and the sweep\<close>

text \<open>
  Claim C9. In every state reachable from the initial one (with a clock that reads positive
  times), a registered player whose finishedAt is not null is never marked not alive by the
  sweep: the phase is then not playing, so the sweep returns the state as it is.
\<close>

theorem finished_never_swept:
  assumes "reachable g" and "map_of (players g) sid = Some p" and "finishedAt p \<noteq> None"
  shows "phase g \<noteq> Playing \<and> eliminateHolders r g = g"
proof -
  from assms(1) have inv: "match_inv g" by (rule reachable_match_inv)
  from assms(2) have "(sid, p) \<in> set (players g)" by (rule map_of_SomeD)
  with assms(3) have "\<not> unfinished (players g)"
    unfolding unfinished_def by (intro notI) (drule bspec, assumption, simp)
  with inv have ph: "phase g \<noteq> Playing" by (auto simp: match_inv_def)
  then have "eliminateHolders r g = g" by (simp add: eliminateHolders_def)
  with ph show ?thesis by simp
qed

theorem finished_never_swept_witness:
  "reachable finish_line \<and>
   map_of (players finish_line) ''s1'' =
     Some ((createPlayer ''s1'' [0x41])\<lparr>holding := True, progress := 100,
             finishedAt := Some 1000\<rparr>) \<and>
   phase finish_line \<noteq> Playing \<and> eliminateHolders 0 finish_line = finish_line"
proof -
  have m: "map_of (players finish_line) ''s1'' =
     Some ((createPlayer ''s1'' [0x41])\<lparr>holding := True, progress := 100,
             finishedAt := Some 1000\<rparr>)"
    by (simp add: players_finish_line)
  have f: "finishedAt ((createPlayer ''s1'' [0x41])\<lparr>holding := True, progress := 100,
             finishedAt := Some 1000\<rparr>) \<noteq> None" by simp
  from finished_never_swept [OF reachable_finish_line m f, of 0] reachable_finish_line m
  show ?thesis by simp
qed

section \<open>Leaving a running match\<close>

text \<open>
  Claim C10. The remove-player command deletes the named player in any phase, and a
  disconnect outside the lobby marks the player not alive and not holding; neither changes
  the phase nor announces an end of the match, however few players stay alive. Any step
  that takes a playing match to game over is the firing of an armed timer whose callback is
  the elimination sweep or the progress tick.
\<close>

theorem kick_disconnect_keep_phase:
  "phase (step (KickPlayer sid pid) g) = phase g \<and>
   map_of (players (step (KickPlayer sid pid) g)) pid = None \<and>
   announced g (step (KickPlayer sid pid) g) = [] \<and>
   phase (step (Disconnect sid) g) = phase g \<and>
   announced g (step (Disconnect sid) g) = [] \<and>
   (phase g \<noteq> Lobby \<longrightarrow> map_of (players g) sid = Some p \<longrightarrow>
      map_of (players (step (Disconnect sid) g)) sid = Some (p\<lparr>alive := False, holding := False\<rparr>)) \<and>
   (phase g = Playing \<longrightarrow> phase (step e g) = GameOver \<longrightarrow>
      (\<exists>h r clock t. e = Fire h r clock \<and> find (\<lambda>t. handle t = h) (timers g) = Some t \<and>
           (callback t = CbEliminateHolders \<or> callback t = CbProgressTick)))"
proof -
  have "map_of (players (on_kickPlayer sid pid g)) pid = None"
    by (simp add: on_kickPlayer_def Let_def map_of_delete_self)
  moreover have "phase g \<noteq> Lobby \<longrightarrow> map_of (players g) sid = Some p \<longrightarrow>
      map_of (players (on_disconnect sid g)) sid = Some (p\<lparr>alive := False, holding := False\<rparr>)"
    by (simp add: on_disconnect_def Let_def AList.map_of_map_entry)
  ultimately show ?thesis
    using only_timers_end_match [of g e]
    by (simp add: announced_on_kickPlayer announced_on_disconnect)
qed

theorem kick_disconnect_keep_phase_witness:
  "phase (run [KickPlayer ''tv'' ''s1'', Disconnect ''s3''] (match_at Green False)) = Playing \<and>
   getAlivePlayers (run [KickPlayer ''tv'' ''s1'', Disconnect ''s3''] (match_at Green False)) = [bob] \<and>
   map_of (players (step (Disconnect ''s3'') (match_at Green False))) ''s3'' =
     Some (cy\<lparr>alive := False, holding := False\<rparr>) \<and>
   phase last_two = Playing \<and> phase (step (Fire 7 0 clk) last_two) = GameOver \<and>
   (\<exists>t. find (\<lambda>t. handle t = 7) (timers last_two) = Some t \<and>
        callback t = CbEliminateHolders)"
proof -
  let ?g = "match_at Green False"
  let ?g1 = "step (KickPlayer ''tv'' ''s1'') ?g"
  have pg: "phase ?g = Playing" "phase ?g \<noteq> Lobby" "map_of (players ?g) ''s3'' = Some cy"
    by (simp_all add: match_at_def)
  with kick_disconnect_keep_phase [where g = ?g and sid = "''tv''" and pid = "''s1''"]
  have "phase ?g1 = Playing" by simp
  with kick_disconnect_keep_phase [where g = ?g1 and sid = "''s3''"]
  have a: "phase (step (Disconnect ''s3'') ?g1) = Playing" by simp
  have b: "getAlivePlayers (step (Disconnect ''s3'') ?g1) = [bob]"
    by (simp add: getAlivePlayers_def on_disconnect_def on_kickPlayer_def Let_def match_at_def
          ann_def bob_def cy_def createPlayer_def)
  from kick_disconnect_keep_phase [where g = ?g and sid = "''s3''" and p = cy] pg
  have c: "map_of (players (step (Disconnect ''s3'') ?g)) ''s3'' =
     Some (cy\<lparr>alive := False, holding := False\<rparr>)" by simp
  have l: "phase last_two = Playing" "light last_two = Red" "survivors last_two = [ann]"
    "find (\<lambda>t. handle t = 7) (timers last_two) =
       Some \<lparr>handle = 7, callback = CbEliminateHolders, delay = 350, repeats = False\<rparr>"
    by (simp_all add: last_two_def match_at_def on_disconnect_def Let_def survivors_def
          ann_def bob_def cy_def createPlayer_def)
  let ?l1 = "last_two\<lparr>timers := filter (\<lambda>t. handle t \<noteq> 7) (timers last_two)\<rparr>"
  have "survivors ?l1 = [ann]" "phase ?l1 = Playing" "light ?l1 = Red"
    using l by (simp_all add: survivors_def)
  with sweep_survivors [where g = ?l1 and w = ann and r = 0] have "phase (eliminateHolders 0 ?l1) = GameOver" by simp
  then have d: "phase (step (Fire 7 0 clk) last_two) = GameOver"
    using l(4) by (simp add: fire_def)
  from kick_disconnect_keep_phase [where g = last_two and e = "Fire 7 0 clk"] l(1) d
  have "\<exists>t. find (\<lambda>t. handle t = 7) (timers last_two) = Some t \<and>
        (callback t = CbEliminateHolders \<or> callback t = CbProgressTick)" by auto
  with l(4) have e: "\<exists>t. find (\<lambda>t. handle t = 7) (timers last_two) = Some t \<and>
        callback t = CbEliminateHolders" by simp
  from a b c l(1) d e show ?thesis by simp
qed

end
